theory Spec2Isabelle
  imports Main "HOL-Library.Sublist"
begin

section \<open>Strings and errors\<close>

text \<open>
  Go strings are byte sequences; they are modelled as \<open>string\<close> (a list of characters).
  The three functions of package \<open>strings\<close> the importer uses are written out.
\<close>

definition HasSuffix :: "string \<Rightarrow> string \<Rightarrow> bool" where
  "HasSuffix s suf = suffix suf s"

definition TrimPrefix :: "string \<Rightarrow> string \<Rightarrow> string" where
  "TrimPrefix s pre = (if prefix pre s then drop (length pre) s else s)"

fun Contains :: "string \<Rightarrow> string \<Rightarrow> bool" where
  "Contains [] sub = (sub = [])"
| "Contains (c # cs) sub = (prefix sub (c # cs) \<or> Contains cs sub)"

text \<open>
  A Go \<open>error\<close> is a value with a message; \<open>fmt.Errorf\<close> with the verb \<open>%w\<close> builds an
  error whose message embeds the message of the error it wraps.
\<close>

datatype error = ErrorString string | WrapError string error

fun ErrorMsg :: "error \<Rightarrow> string" where
  "ErrorMsg (ErrorString m) = m"
| "ErrorMsg (WrapError m e) = m"

definition Errorf_w :: "string \<Rightarrow> error \<Rightarrow> error" where
  "Errorf_w pre e = WrapError (pre @ ErrorMsg e) e"

fun digits10 :: "nat \<Rightarrow> string" where
  "digits10 n = (if n < 10 then [''0123456789'' ! n]
                 else digits10 (n div 10) @ [''0123456789'' ! (n mod 10)])"

definition formatInt :: "int \<Rightarrow> string" where
  "formatInt i = (if i < 0 then ''-'' @ digits10 (nat (- i)) else digits10 (nat i))"

section \<open>Path prefix normalisation\<close>

definition normalizePathPrefix :: "string \<Rightarrow> string" where
  "normalizePathPrefix p =
     (if p = '''' \<or> p = ''/'' then ''''
      else let p1 = (if \<not> HasSuffix p ''/'' then p @ ''/'' else p)
           in TrimPrefix p1 ''/'')"

section \<open>Data model\<close>

text \<open>
  The payload of a secret (\<open>map[string]interface{}\<close>) is never inspected by the import
  engine, so it is a type parameter \<open>'d\<close>. Of the metadata only the description is read.
\<close>

record 'd Secret =
  Path :: string
  Data :: 'd
  Description :: string

record 'd ExportFile =
  Secrets :: "'d Secret list"

datatype ImportConfirmation =
  ConfirmYes | ConfirmNo | ConfirmYesToAll | ConfirmNoToAll | ConfirmAbort

text \<open>
  \<open>ImportResult\<close>: the fields \<open>Path\<close> and \<open>Error\<close> of the source are \<open>ResultPath\<close> and
  \<open>Err\<close> here; a nil error is \<open>None\<close>.
\<close>

record ImportResult =
  ResultPath :: string
  Success :: bool
  Skipped :: bool
  Err :: "error option"

text \<open>
  The package-level flag variables of the import command, and the configuration of the
  client (\<open>Timeout\<close> in nanoseconds, as a \<open>time.Duration\<close>).
\<close>

record Flags =
  importInput :: string
  importOpenBaoAddr :: string
  importOpenBaoToken :: string
  importMount :: string
  importHeaders :: "string list"
  importPathPrefix :: string
  importSkipExisting :: bool
  importOverwriteAll :: bool
  importInteractive :: bool
  importParallelism :: int
  importDryRun :: bool
  importTLSSkipVerify :: bool

record Config =
  Address :: string
  Token :: string
  Mount :: string
  Headers :: "string \<rightharpoonup> string"
  TLSSkipVerify :: bool
  Timeout :: int

section \<open>The outside world\<close>

text \<open>
  Everything the importer prints is recorded as one \<open>printed\<close> value per print site, with
  the values that are formatted into the line.
\<close>

datatype printed =
    ReadingExportFile string
  | FoundSecrets int
  | ConnectingTo string
  | ConnectedOK
  | DryRunHeader
  | DryRunSecret string string
  | DryRunTotal int
  | StartingInteractive
  | WarnExistsFailed error
  | PrintedSkipped
  | AbortedByUser int int
  | WriteFailed error
  | PrintedImported
  | ImportComplete int int int
  | StartingParallel int
  | ErrorImporting string "error option"
  | Progress int int

text \<open>
  The history of a run: the calls made on the export file, on the OpenBao client and on
  the terminal prompt, and the lines printed, in the order they happen. The history is
  a ghost variable: the code never reads it; it is what "is called" and "is never
  called" are stated on. \<open>Prompt current total path destPath exists\<close> is one call of
  \<open>promptImport\<close>, which prints these values before it asks; the key names and the
  description it prints as well are not recorded (the keys come out of a Go map in no
  fixed order).
\<close>

datatype 'd event =
    CallValidateFile string
  | CallNewClient Config
  | CallHealth
  | CallSecretExists string
  | CallWriteSecret string 'd
  | Prompt int int string string bool
  | Print printed

fun isWrite :: "'d event \<Rightarrow> bool" where
  "isWrite (CallWriteSecret p d) = True"
| "isWrite e = False"

fun isExists :: "'d event \<Rightarrow> bool" where
  "isExists (CallSecretExists p) = True"
| "isExists e = False"

fun isPrompt :: "'d event \<Rightarrow> bool" where
  "isPrompt (Prompt c t p d x) = True"
| "isPrompt e = False"

fun isPrint :: "'d event \<Rightarrow> bool" where
  "isPrint (Print out) = True"
| "isPrint e = False"

fun isSummary :: "'d event \<Rightarrow> bool" where
  "isSummary (Print (ImportComplete i s f)) = True"
| "isSummary (Print (AbortedByUser i s)) = True"
| "isSummary e = False"

text \<open>The calls of a history: everything but the printed lines.\<close>

definition calls :: "'d event list \<Rightarrow> 'd event list" where
  "calls es = filter (\<lambda>e. \<not> isPrint e) es"

text \<open>
  The libraries and services the importer is built on are parameters of the model. The
  state of everything outside the process (the file system, the OpenBao server) is a
  value of an arbitrary type \<open>'w\<close>, and each external operation is an arbitrary function
  that reads and changes it:
  \<^item> \<open>ValidateFile\<close>: \<open>schema.ValidateFile\<close>, the reading and decoding of the export file
    (\<open>os.ReadFile\<close>, \<open>json.Unmarshal\<close>) with the schema check; the import engine uses
    nothing of the result but the list of secrets;
  \<^item> \<open>ParseHeaders\<close>: \<open>openbao.ParseHeaders\<close>, the pure parser of the \<open>--header\<close> values,
    whose result only goes into the configuration of the client;
  \<^item> \<open>apiNewClient\<close>, \<open>sysHealth\<close>, \<open>kvGet\<close>, \<open>kvPut\<close>: the Vault API client
    (\<open>api.NewClient\<close>, \<open>Sys().Health\<close>, \<open>KVv2(mount).Get\<close> and \<open>Put\<close>); \<open>sysHealth\<close>
    returns the \<open>Sealed\<close> field, \<open>kvGet\<close> the secret or \<open>None\<close> for a nil pointer;
  \<^item> \<open>AskOne\<close>: the terminal prompt of the survey library; \<open>AskOne n\<close> is what the
    \<open>n\<close>-th prompt of the run (counted from 0) returns, either an error or the
    selected option.
\<close>

record ('d, 'w) ext =
  ValidateFile :: "string \<Rightarrow> 'w \<Rightarrow> (error + 'd ExportFile) \<times> 'w"
  ParseHeaders :: "string list \<Rightarrow> error + (string \<rightharpoonup> string)"
  apiNewClient :: "Config \<Rightarrow> 'w \<Rightarrow> error option \<times> 'w"
  sysHealth :: "'w \<Rightarrow> (error + bool) \<times> 'w"
  kvGet :: "string \<Rightarrow> 'w \<Rightarrow> (error + 'd option) \<times> 'w"
  kvPut :: "string \<Rightarrow> 'd \<Rightarrow> 'w \<Rightarrow> error option \<times> 'w"
  AskOne :: "nat \<Rightarrow> error + string"

text \<open>
  The state a run threads through: the outside world, the history, and the number of
  prompts shown so far.
\<close>

record ('d, 'w) sys =
  world :: 'w
  trace :: "'d event list"
  asked :: nat

definition emit :: "'d event \<Rightarrow> ('d, 'w) sys \<Rightarrow> ('d, 'w) sys" where
  "emit e s = s\<lparr>trace := trace s @ [e]\<rparr>"

definition print :: "printed \<Rightarrow> ('d, 'w) sys \<Rightarrow> ('d, 'w) sys" where
  "print out s = emit (Print out) s"

section \<open>The OpenBao client\<close>

definition NewClient :: "('d, 'w) ext \<Rightarrow> Config \<Rightarrow> ('d, 'w) sys \<Rightarrow> error option \<times> ('d, 'w) sys" where
  "NewClient X cfg s =
     (case apiNewClient X cfg (world (emit (CallNewClient cfg) s)) of
        (err, w) \<Rightarrow>
          (case err of
             Some e \<Rightarrow> (Some (Errorf_w ''failed to create OpenBao client: '' e),
                        (emit (CallNewClient cfg) s)\<lparr>world := w\<rparr>)
           | None \<Rightarrow> (None, (emit (CallNewClient cfg) s)\<lparr>world := w\<rparr>)))"

definition Health :: "('d, 'w) ext \<Rightarrow> ('d, 'w) sys \<Rightarrow> error option \<times> ('d, 'w) sys" where
  "Health X s =
     (case sysHealth X (world s) of
        (r, w) \<Rightarrow>
          (case r of
             Inl e \<Rightarrow> (Some (Errorf_w ''failed to check OpenBao health: '' e),
                       (emit CallHealth s)\<lparr>world := w\<rparr>)
           | Inr sealed \<Rightarrow>
               (if sealed then (Some (ErrorString ''OpenBao is sealed''),
                                (emit CallHealth s)\<lparr>world := w\<rparr>)
                else (None, (emit CallHealth s)\<lparr>world := w\<rparr>))))"

definition WriteSecret ::
  "('d, 'w) ext \<Rightarrow> string \<Rightarrow> 'd \<Rightarrow> ('d, 'w) sys \<Rightarrow> error option \<times> ('d, 'w) sys" where
  "WriteSecret X path d s =
     (case kvPut X path d (world s) of
        (err, w) \<Rightarrow>
          (case err of
             Some e \<Rightarrow> (Some (Errorf_w (''failed to write secret to '' @ path @ '': '') e),
                        (emit (CallWriteSecret path d) s)\<lparr>world := w\<rparr>)
           | None \<Rightarrow> (None, (emit (CallWriteSecret path d) s)\<lparr>world := w\<rparr>)))"

text \<open>
  \<open>SecretExists\<close> returns a pair as the Go function does: the boolean and the error
  (\<open>None\<close> for nil).
\<close>

definition SecretExists ::
  "('d, 'w) ext \<Rightarrow> string \<Rightarrow> ('d, 'w) sys \<Rightarrow> (bool \<times> error option) \<times> ('d, 'w) sys" where
  "SecretExists X path s =
     (case kvGet X path (world s) of
        (r, w) \<Rightarrow>
          (case r of
             Inl e \<Rightarrow>
               (if Contains (ErrorMsg e) ''secret not found''
                then ((False, None), (emit (CallSecretExists path) s)\<lparr>world := w\<rparr>)
                else ((False, Some (Errorf_w (''failed to check secret at '' @ path @ '': '') e)),
                      (emit (CallSecretExists path) s)\<lparr>world := w\<rparr>))
           | Inr secret \<Rightarrow>
               ((case secret of None \<Rightarrow> False | Some v \<Rightarrow> True, None),
                (emit (CallSecretExists path) s)\<lparr>world := w\<rparr>)))"

section \<open>Interactive import\<close>

text \<open>
  \<open>promptImport\<close> prints the secret and asks; an error of the prompt is returned with
  \<open>ConfirmAbort\<close>, and any selection that is none of the first four options is
  \<open>ConfirmAbort\<close> as well.
\<close>

definition promptImport ::
  "('d, 'w) ext \<Rightarrow> int \<Rightarrow> int \<Rightarrow> 'd Secret \<Rightarrow> string \<Rightarrow> bool \<Rightarrow> ('d, 'w) sys
     \<Rightarrow> (ImportConfirmation \<times> error option) \<times> ('d, 'w) sys" where
  "promptImport X current tot secret destPath exists s =
     (let s1 = (emit (Prompt current tot (Path secret) destPath exists) s)\<lparr>asked := Suc (asked s)\<rparr>
      in case AskOne X (asked s) of
           Inl err \<Rightarrow> ((ConfirmAbort, Some err), s1)
         | Inr selection \<Rightarrow>
             ((if selection = ''Yes'' then ConfirmYes
               else if selection = ''No'' then ConfirmNo
               else if selection = ''Yes to all remaining'' then ConfirmYesToAll
               else if selection = ''No to all remaining'' then ConfirmNoToAll
               else ConfirmAbort, None), s1))"

text \<open>
  The local variables of \<open>runInteractiveImport\<close>, with the state of the run. The
  counters are Go integers (\<open>int\<close> here, \<open>int64\<close> in the parallel run); they count the
  secrets of a slice held in memory and stay far below \<open>2^63\<close>, so they are unbounded
  integers in the model. The parameter \<open>total\<close> of the source is \<open>tot\<close>.
\<close>

record ('d, 'w) istate =
  imported :: int
  skipped :: int
  failed :: int
  confirmAll :: bool
  skipAll :: bool
  isys :: "('d, 'w) sys"

text \<open>
  How an iteration of the loop ends: \<open>Continue\<close> goes on with the next secret (by
  \<open>continue\<close> or by reaching the end of the body), \<open>Return r\<close> leaves the function with
  the error \<open>r\<close>.
\<close>

datatype ctl = Continue | Return "error option"

text \<open>
  The block under \<open>if !confirmAll\<close>: the existence check, the prompt and the switch on
  the answer. \<open>None\<close> means that the block falls through to the write.
\<close>

definition promptBlock ::
  "('d, 'w) ext \<Rightarrow> int \<Rightarrow> int \<Rightarrow> 'd Secret \<Rightarrow> string \<Rightarrow> ('d, 'w) istate
     \<Rightarrow> ctl option \<times> ('d, 'w) istate" where
  "promptBlock X tot i secret destPath st =
     (case SecretExists X destPath (isys st) of
        ((exists, err), s1) \<Rightarrow>
          (case promptImport X (i + 1) tot secret destPath exists
                  (case err of None \<Rightarrow> s1 | Some e \<Rightarrow> print (WarnExistsFailed e) s1) of
             ((confirmation, perr), s3) \<Rightarrow>
               (case perr of
                  Some e \<Rightarrow> (Some (Return (Some (Errorf_w ''prompt failed: '' e))), st\<lparr>isys := s3\<rparr>)
                | None \<Rightarrow>
                    (case confirmation of
                       ConfirmYes \<Rightarrow> (None, st\<lparr>isys := s3\<rparr>)
                     | ConfirmNo \<Rightarrow>
                         (Some Continue, st\<lparr>skipped := skipped st + 1, isys := print PrintedSkipped s3\<rparr>)
                     | ConfirmYesToAll \<Rightarrow> (None, st\<lparr>confirmAll := True, isys := s3\<rparr>)
                     | ConfirmNoToAll \<Rightarrow>
                         (Some Continue, st\<lparr>skipped := skipped st + 1, skipAll := True, isys := s3\<rparr>)
                     | ConfirmAbort \<Rightarrow>
                         (Some (Return None),
                          st\<lparr>isys := print (AbortedByUser (imported st) (skipped st)) s3\<rparr>)))))"

definition writeBlock ::
  "('d, 'w) ext \<Rightarrow> 'd Secret \<Rightarrow> string \<Rightarrow> ('d, 'w) istate \<Rightarrow> ctl \<times> ('d, 'w) istate" where
  "writeBlock X secret destPath st =
     (case WriteSecret X destPath (Data secret) (isys st) of
        (err, s1) \<Rightarrow>
          (case err of
             Some e \<Rightarrow> (Continue, st\<lparr>failed := failed st + 1, isys := print (WriteFailed e) s1\<rparr>)
           | None \<Rightarrow> (Continue, st\<lparr>imported := imported st + 1, isys := print PrintedImported s1\<rparr>)))"

text \<open>The body of the loop, for the secret at index \<open>i\<close>.\<close>

definition interactiveBody ::
  "('d, 'w) ext \<Rightarrow> string \<Rightarrow> int \<Rightarrow> int \<Rightarrow> 'd Secret \<Rightarrow> ('d, 'w) istate
     \<Rightarrow> ctl \<times> ('d, 'w) istate" where
  "interactiveBody X pathPrefix tot i secret st =
     (let destPath = pathPrefix @ Path secret
      in if skipAll st then (Continue, st\<lparr>skipped := skipped st + 1\<rparr>)
         else if \<not> confirmAll st then
           (case promptBlock X tot i secret destPath st of
              (Some c, st1) \<Rightarrow> (c, st1)
            | (None, st1) \<Rightarrow> writeBlock X secret destPath st1)
         else writeBlock X secret destPath st)"

fun interactiveLoop ::
  "('d, 'w) ext \<Rightarrow> string \<Rightarrow> int \<Rightarrow> int \<Rightarrow> 'd Secret list \<Rightarrow> ('d, 'w) istate
     \<Rightarrow> ctl \<times> ('d, 'w) istate" where
  "interactiveLoop X pathPrefix tot i [] st = (Continue, st)"
| "interactiveLoop X pathPrefix tot i (secret # rest) st =
     (case interactiveBody X pathPrefix tot i secret st of
        (Continue, st1) \<Rightarrow> interactiveLoop X pathPrefix tot (i + 1) rest st1
      | (Return r, st1) \<Rightarrow> (Return r, st1))"

definition interactiveInit :: "('d, 'w) sys \<Rightarrow> ('d, 'w) istate" where
  "interactiveInit s =
     \<lparr>imported = 0, skipped = 0, failed = 0, confirmAll = False, skipAll = False,
      isys = print StartingInteractive s\<rparr>"

text \<open>
  \<open>runInteractiveImport\<close> returns the error of the Go function (\<open>None\<close> for nil) and,
  for the statements about them, its local variables when it returns.
\<close>

definition runInteractiveImport ::
  "('d, 'w) ext \<Rightarrow> 'd ExportFile \<Rightarrow> string \<Rightarrow> ('d, 'w) sys \<Rightarrow> error option \<times> ('d, 'w) istate" where
  "runInteractiveImport X export pathPrefix s =
     (case interactiveLoop X pathPrefix (int (length (Secrets export))) 0 (Secrets export)
             (interactiveInit s) of
        (Return r, st) \<Rightarrow> (r, st)
      | (Continue, st) \<Rightarrow>
          (None, st\<lparr>isys := print (ImportComplete (imported st) (skipped st) (failed st)) (isys st)\<rparr>))"

section \<open>Parallel import\<close>

text \<open>
  \<open>importSecret\<close> makes at most two calls on the client. They are written as two
  functions, the part up to the existence check and the write, because in a parallel
  run calls of other workers can happen between them; \<open>importSecret\<close> itself is the one
  followed by the other. \<open>importSecretCheck\<close> returns \<open>Some result\<close> where the source
  returns before the write.
\<close>

definition importSecretCheck ::
  "('d, 'w) ext \<Rightarrow> Flags \<Rightarrow> 'd Secret \<Rightarrow> string \<Rightarrow> ('d, 'w) sys
     \<Rightarrow> ImportResult option \<times> ('d, 'w) sys" where
  "importSecretCheck X fl secret pathPrefix s =
     (let destPath = pathPrefix @ Path secret;
          result = \<lparr>ResultPath = destPath, Success = False, Skipped = False, Err = None\<rparr>
      in if importSkipExisting fl \<and> \<not> importOverwriteAll fl then
           (case SecretExists X destPath s of
              ((exists, err), s1) \<Rightarrow>
                (case err of
                   Some e \<Rightarrow> (Some (result\<lparr>Err := Some (Errorf_w ''failed to check existence: '' e)\<rparr>), s1)
                 | None \<Rightarrow>
                     (if exists then (Some (result\<lparr>Success := True, Skipped := True\<rparr>), s1)
                      else (None, s1))))
         else (None, s))"

definition importSecretWrite ::
  "('d, 'w) ext \<Rightarrow> 'd Secret \<Rightarrow> string \<Rightarrow> ('d, 'w) sys \<Rightarrow> ImportResult \<times> ('d, 'w) sys" where
  "importSecretWrite X secret pathPrefix s =
     (let destPath = pathPrefix @ Path secret;
          result = \<lparr>ResultPath = destPath, Success = False, Skipped = False, Err = None\<rparr>
      in case WriteSecret X destPath (Data secret) s of
           (err, s1) \<Rightarrow>
             (case err of
                Some e \<Rightarrow> (result\<lparr>Err := Some e\<rparr>, s1)
              | None \<Rightarrow> (result\<lparr>Success := True\<rparr>, s1)))"

definition importSecret ::
  "('d, 'w) ext \<Rightarrow> Flags \<Rightarrow> 'd Secret \<Rightarrow> string \<Rightarrow> ('d, 'w) sys \<Rightarrow> ImportResult \<times> ('d, 'w) sys" where
  "importSecret X fl secret pathPrefix s =
     (case importSecretCheck X fl secret pathPrefix s of
        (Some result, s1) \<Rightarrow> (result, s1)
      | (None, s1) \<Rightarrow> importSecretWrite X secret pathPrefix s1)"

text \<open>
  \<open>runParallelImport\<close> starts one goroutine per worker, one that sends the secrets on
  the channel \<open>work\<close> and closes it, and one that waits for the workers and closes the
  channel \<open>results\<close>; the calling goroutine receives the results and counts them. The
  goroutines share the two channels, the wait group and the client only, so a run is
  an interleaving of their steps, a step being what a goroutine does up to and
  including its next channel operation or client call.

  Where a worker stands: waiting to receive from \<open>work\<close>, about to check a secret, about
  to write it, about to send its result, or past the end of its loop (\<open>wg.Done\<close>).
\<close>

datatype 'd worker =
  Waiting | Checking "'d Secret" | Writing "'d Secret" | Sending ImportResult | Exited

datatype goroutine = Sender | Worker nat | Closer | Main

text \<open>
  The state of a parallel run: the local counters (\<open>imported\<close>, \<open>skipped\<close> and \<open>failed\<close>
  in the source), the secrets the sender has not sent yet, the buffers of the two
  channels with their capacity \<open>chanCap\<close> and whether each is closed, the workers, and
  what the function has returned, if it has.
\<close>

record ('d, 'w) pstate =
  imported_p :: int
  skipped_p :: int
  failed_p :: int
  unsent :: "'d Secret list"
  chanCap :: nat
  work :: "'d Secret list"
  workClosed :: bool
  workers :: "'d worker list"
  results :: "ImportResult list"
  resultsClosed :: bool
  returned :: "error option option"
  psys :: "('d, 'w) sys"

text \<open>A send on a full channel and a receive on an empty open channel block: no step.\<close>

definition senderStep :: "('d, 'w) pstate \<Rightarrow> ('d, 'w) pstate option" where
  "senderStep st =
     (case unsent st of
        secret # rest \<Rightarrow>
          (if length (work st) < chanCap st
           then Some (st\<lparr>unsent := rest, work := work st @ [secret]\<rparr>)
           else None)
      | [] \<Rightarrow> (if workClosed st then None else Some (st\<lparr>workClosed := True\<rparr>)))"

definition workerStep ::
  "('d, 'w) ext \<Rightarrow> Flags \<Rightarrow> string \<Rightarrow> nat \<Rightarrow> ('d, 'w) pstate \<Rightarrow> ('d, 'w) pstate option" where
  "workerStep X fl pathPrefix i st =
     (if length (workers st) \<le> i then None
      else case workers st ! i of
        Waiting \<Rightarrow>
          (case work st of
             secret # rest \<Rightarrow> Some (st\<lparr>work := rest, workers := (workers st)[i := Checking secret]\<rparr>)
           | [] \<Rightarrow>
               (if workClosed st then Some (st\<lparr>workers := (workers st)[i := Exited]\<rparr>) else None))
      | Checking secret \<Rightarrow>
          (case importSecretCheck X fl secret pathPrefix (psys st) of
             (Some result, s1) \<Rightarrow> Some (st\<lparr>workers := (workers st)[i := Sending result], psys := s1\<rparr>)
           | (None, s1) \<Rightarrow> Some (st\<lparr>workers := (workers st)[i := Writing secret], psys := s1\<rparr>))
      | Writing secret \<Rightarrow>
          (case importSecretWrite X secret pathPrefix (psys st) of
             (result, s1) \<Rightarrow> Some (st\<lparr>workers := (workers st)[i := Sending result], psys := s1\<rparr>))
      | Sending result \<Rightarrow>
          (if length (results st) < chanCap st
           then Some (st\<lparr>workers := (workers st)[i := Waiting], results := results st @ [result]\<rparr>)
           else None)
      | Exited \<Rightarrow> None)"

definition closerStep :: "('d, 'w) pstate \<Rightarrow> ('d, 'w) pstate option" where
  "closerStep st =
     (if \<not> resultsClosed st \<and> list_all (\<lambda>w. w = Exited) (workers st)
      then Some (st\<lparr>resultsClosed := True\<rparr>)
      else None)"

text \<open>The counting of one result, and the progress line.\<close>

definition countResult :: "ImportResult \<Rightarrow> ('d, 'w) pstate \<Rightarrow> ('d, 'w) pstate" where
  "countResult result st =
     (let st1 =
        (if Skipped result then st\<lparr>skipped_p := skipped_p st + 1\<rparr>
         else if Success result then st\<lparr>imported_p := imported_p st + 1\<rparr>
         else st\<lparr>failed_p := failed_p st + 1,
                 psys := print (ErrorImporting (ResultPath result) (Err result)) (psys st)\<rparr>)
      in st1\<lparr>psys := print (Progress (imported_p st1 + skipped_p st1 + failed_p st1)
                              (int (chanCap st1))) (psys st1)\<rparr>)"

definition mainStep :: "('d, 'w) pstate \<Rightarrow> ('d, 'w) pstate option" where
  "mainStep st =
     (case results st of
        result # rest \<Rightarrow> Some (countResult result (st\<lparr>results := rest\<rparr>))
      | [] \<Rightarrow>
          (if resultsClosed st
           then Some (st\<lparr>returned :=
                          Some (if failed_p st > 0
                                then Some (ErrorString (formatInt (failed_p st) @
                                                        '' secrets failed to import''))
                                else None),
                        psys := print (ImportComplete (imported_p st) (skipped_p st) (failed_p st))
                                  (psys st)\<rparr>)
           else None))"

text \<open>One step of the goroutine \<open>g\<close>; nothing runs once the function has returned.\<close>

definition pstep ::
  "('d, 'w) ext \<Rightarrow> Flags \<Rightarrow> string \<Rightarrow> goroutine \<Rightarrow> ('d, 'w) pstate \<Rightarrow> ('d, 'w) pstate option" where
  "pstep X fl pathPrefix g st =
     (if returned st \<noteq> None then None
      else case g of
        Sender \<Rightarrow> senderStep st
      | Worker i \<Rightarrow> workerStep X fl pathPrefix i st
      | Closer \<Rightarrow> closerStep st
      | Main \<Rightarrow> mainStep st)"

text \<open>
  A schedule is the list of the goroutines that move, in order. \<open>pexec\<close> is \<open>None\<close> when
  the schedule asks a blocked or finished goroutine to move.
\<close>

fun pexec ::
  "('d, 'w) ext \<Rightarrow> Flags \<Rightarrow> string \<Rightarrow> goroutine list \<Rightarrow> ('d, 'w) pstate
     \<Rightarrow> ('d, 'w) pstate option" where
  "pexec X fl pathPrefix [] st = Some st"
| "pexec X fl pathPrefix (g # gs) st =
     (case pstep X fl pathPrefix g st of
        None \<Rightarrow> None
      | Some st1 \<Rightarrow> pexec X fl pathPrefix gs st1)"

text \<open>
  The state when the goroutines have been started: \<open>importParallelism\<close> workers (none
  when it is zero or negative), all waiting.
\<close>

definition parallelInit :: "Flags \<Rightarrow> 'd ExportFile \<Rightarrow> ('d, 'w) sys \<Rightarrow> ('d, 'w) pstate" where
  "parallelInit fl export s =
     \<lparr>imported_p = 0, skipped_p = 0, failed_p = 0,
      unsent = Secrets export, chanCap = length (Secrets export),
      work = [], workClosed = False,
      workers = replicate (nat (importParallelism fl)) Waiting,
      results = [], resultsClosed = False, returned = None,
      psys = print (StartingParallel (importParallelism fl)) s\<rparr>"

text \<open>
  \<open>runParallelImport\<close> under a schedule: the error returned and the final state, or
  \<open>None\<close> when the schedule is not a run up to the return of the function.
\<close>

definition runParallelImport ::
  "('d, 'w) ext \<Rightarrow> Flags \<Rightarrow> goroutine list \<Rightarrow> 'd ExportFile \<Rightarrow> string \<Rightarrow> ('d, 'w) sys
     \<Rightarrow> (error option \<times> ('d, 'w) pstate) option" where
  "runParallelImport X fl sched export pathPrefix s =
     (case pexec X fl pathPrefix sched (parallelInit fl export s) of
        None \<Rightarrow> None
      | Some st \<Rightarrow> (case returned st of None \<Rightarrow> None | Some r \<Rightarrow> Some (r, st)))"

section \<open>The import command\<close>

definition runDryRun :: "'d ExportFile \<Rightarrow> string \<Rightarrow> ('d, 'w) sys \<Rightarrow> error option \<times> ('d, 'w) sys" where
  "runDryRun export pathPrefix s =
     (None,
      print (DryRunTotal (int (length (Secrets export))))
        (foldl (\<lambda>s1 secret. print (DryRunSecret (Path secret) (pathPrefix @ Path secret)) s1)
           (print DryRunHeader s) (Secrets export)))"

text \<open>
  \<open>runImport\<close> returns its error, the flag variables as it leaves them, and the state.
  \<open>runImportRest\<close> is the function from the reading of the export file on, after the
  validation of the flags.
\<close>

definition runImportRest ::
  "('d, 'w) ext \<Rightarrow> goroutine list \<Rightarrow> Flags \<Rightarrow> ('d, 'w) sys
     \<Rightarrow> (error option \<times> Flags \<times> ('d, 'w) sys) option" where
  "runImportRest X sched fl s =
     (let s0 = emit (CallValidateFile (importInput fl)) (print (ReadingExportFile (importInput fl)) s)
      in case ValidateFile X (importInput fl) (world s0) of
        (Inl e, w) \<Rightarrow>
          Some (Some (Errorf_w ''failed to read/validate export file: '' e), fl, s0\<lparr>world := w\<rparr>)
      | (Inr export, w) \<Rightarrow>
          (let s1 = print (FoundSecrets (int (length (Secrets export)))) (s0\<lparr>world := w\<rparr>)
           in case ParseHeaders X (importHeaders fl) of
             Inl e \<Rightarrow> Some (Some (Errorf_w ''invalid header: '' e), fl, s1)
           | Inr headers \<Rightarrow>
               (let pathPrefix = normalizePathPrefix (importPathPrefix fl)
                in if importDryRun fl then
                     (case runDryRun export pathPrefix s1 of (r, s2) \<Rightarrow> Some (r, fl, s2))
                   else
                     (case NewClient X
                             \<lparr>Address = importOpenBaoAddr fl, Token = importOpenBaoToken fl,
                              Mount = importMount fl, Headers = headers,
                              TLSSkipVerify = importTLSSkipVerify fl,
                              Timeout = 30 * 1000000000\<rparr>
                             (print (ConnectingTo (importOpenBaoAddr fl)) s1) of
                        (Some e, s2) \<Rightarrow>
                          Some (Some (Errorf_w ''failed to create OpenBao client: '' e), fl, s2)
                      | (None, s2) \<Rightarrow>
                          (case Health X s2 of
                             (Some e, s3) \<Rightarrow>
                               Some (Some (Errorf_w ''failed to connect to OpenBao: '' e), fl, s3)
                           | (None, s3) \<Rightarrow>
                               (if importInteractive fl then
                                  (case runInteractiveImport X export pathPrefix (print ConnectedOK s3) of
                                     (r, st) \<Rightarrow> Some (r, fl, isys st))
                                else
                                  (case runParallelImport X fl sched export pathPrefix
                                          (print ConnectedOK s3) of
                                     None \<Rightarrow> None
                                   | Some (r, st) \<Rightarrow> Some (r, fl, psys st))))))))"

definition runImport ::
  "('d, 'w) ext \<Rightarrow> goroutine list \<Rightarrow> Flags \<Rightarrow> ('d, 'w) sys
     \<Rightarrow> (error option \<times> Flags \<times> ('d, 'w) sys) option" where
  "runImport X sched fl s =
     (if importOverwriteAll fl \<and> importInteractive fl then
        Some (Some (ErrorString ''--overwrite-all and --interactive cannot be used together''), fl, s)
      else runImportRest X sched (if importOverwriteAll fl then fl\<lparr>importSkipExisting := False\<rparr> else fl) s)"

section \<open>Test doubles\<close>

text \<open>
  A stand-in for the outside world, for running the model on concrete inputs: the
  export file holds \<open>export\<close>, the store is an association list from paths to
  payloads, the prompt returns the elements of \<open>answers\<close> one after the other (and an
  error once they are used up), and the reads or the writes of the store fail when
  \<open>getErr\<close> or \<open>putErr\<close> is an error.
\<close>

definition stubExt ::
  "nat ExportFile \<Rightarrow> (error + string) list \<Rightarrow> error option \<Rightarrow> error option
     \<Rightarrow> (nat, (string \<times> nat) list) ext" where
  "stubExt export answers getErr putErr =
     \<lparr>ValidateFile = (\<lambda>path w. (Inr export, w)),
      ParseHeaders = (\<lambda>hs. Inr Map.empty),
      apiNewClient = (\<lambda>cfg w. (None, w)),
      sysHealth = (\<lambda>w. (Inr False, w)),
      kvGet = (\<lambda>path w. case getErr of Some e \<Rightarrow> (Inl e, w) | None \<Rightarrow> (Inr (map_of w path), w)),
      kvPut = (\<lambda>path d w. case putErr of Some e \<Rightarrow> (Some e, w) | None \<Rightarrow> (None, (path, d) # w)),
      AskOne = (\<lambda>n. if n < length answers then answers ! n else Inl (ErrorString ''EOF''))\<rparr>"

definition secretAt :: "string \<Rightarrow> nat \<Rightarrow> nat Secret" where
  "secretAt p d = \<lparr>Path = p, Data = d, Description = ''''\<rparr>"

definition emptySys :: "(nat, (string \<times> nat) list) sys" where
  "emptySys = \<lparr>world = [], trace = [], asked = 0\<rparr>"

definition defaultFlags :: Flags where
  "defaultFlags =
     \<lparr>importInput = ''secrets.json'', importOpenBaoAddr = ''https://openbao:8200'',
      importOpenBaoToken = ''t'', importMount = ''secret'', importHeaders = [],
      importPathPrefix = '''', importSkipExisting = True, importOverwriteAll = False,
      importInteractive = False, importParallelism = 5, importDryRun = False,
      importTLSSkipVerify = False\<rparr>"

section \<open>Quantities of the statements and proofs\<close>

text \<open>
  The three counters of a run as a triple, and the relation "exactly one of the three
  is one higher, the other two are the same".
\<close>

definition totals :: "('d, 'w) istate \<Rightarrow> int \<times> int \<times> int" where
  "totals st = (imported st, skipped st, failed st)"

definition totals_p :: "('d, 'w) pstate \<Rightarrow> int \<times> int \<times> int" where
  "totals_p st = (imported_p st, skipped_p st, failed_p st)"

definition incOne :: "int \<times> int \<times> int \<Rightarrow> int \<times> int \<times> int \<Rightarrow> bool" where
  "incOne a b \<longleftrightarrow>
     b = (fst a + 1, fst (snd a), snd (snd a)) \<or>
     b = (fst a, fst (snd a) + 1, snd (snd a)) \<or>
     b = (fst a, fst (snd a), snd (snd a) + 1)"

text \<open>
  For the parallel run: a worker is busy while it holds a secret or a result; \<open>pending\<close>
  counts the secrets that are somewhere between the export file and the counters;
  \<open>pinv\<close> is the invariant of the run; \<open>stepsLeft\<close> bounds the number of steps that
  remain.
\<close>

fun busy :: "'d worker \<Rightarrow> bool" where
  "busy (Checking s) = True"
| "busy (Writing s) = True"
| "busy (Sending r) = True"
| "busy w = False"

definition pending :: "('d, 'w) pstate \<Rightarrow> nat" where
  "pending st =
     length (unsent st) + length (work st) + length (filter busy (workers st)) + length (results st)"

definition pinv :: "('d, 'w) pstate \<Rightarrow> bool" where
  "pinv st \<longleftrightarrow>
     int (pending st) + imported_p st + skipped_p st + failed_p st = int (chanCap st) \<and>
     0 \<le> imported_p st \<and> 0 \<le> skipped_p st \<and> 0 \<le> failed_p st \<and>
     (workClosed st \<longrightarrow> unsent st = []) \<and>
     (Exited \<in> set (workers st) \<longrightarrow> workClosed st \<and> work st = []) \<and>
     (resultsClosed st \<longrightarrow> list_all (\<lambda>w. w = Exited) (workers st)) \<and>
     (returned st \<noteq> None \<longrightarrow> results st = [] \<and> resultsClosed st)"

fun rank :: "'d worker \<Rightarrow> nat" where
  "rank Exited = 0"
| "rank Waiting = 1"
| "rank (Sending r) = 3"
| "rank (Writing s) = 4"
| "rank (Checking s) = 5"

definition stepsLeft :: "('d, 'w) pstate \<Rightarrow> nat" where
  "stepsLeft st =
     6 * length (unsent st) + 5 * length (work st) + sum_list (map rank (workers st)) +
     length (results st) + (if workClosed st then 0 else 1) + (if resultsClosed st then 0 else 1) +
     (if returned st = None then 1 else 0)"

section \<open>Properties of the path prefix\<close>

lemma HasSuffix_slash: "HasSuffix p ''/'' \<longleftrightarrow> p \<noteq> [] \<and> last p = CHR ''/''"
  unfolding HasSuffix_def
  by (cases p rule: rev_cases) (auto simp: suffix_def)

lemma prefix_slash: "prefix ''/'' p \<longleftrightarrow> p \<noteq> [] \<and> hd p = CHR ''/''"
  by (cases p) auto

lemma normalize_fixed:
  assumes "r \<noteq> []" "last r = CHR ''/''" "hd r \<noteq> CHR ''/''"
  shows "normalizePathPrefix r = r"
proof -
  from assms have "r \<noteq> ''/''" by auto
  with assms show ?thesis
    by (simp add: normalizePathPrefix_def HasSuffix_slash TrimPrefix_def prefix_slash)
qed

lemma normalize_nonempty:
  assumes "p \<noteq> ''''" "p \<noteq> ''/''"
  shows "normalizePathPrefix p \<noteq> [] \<and> last (normalizePathPrefix p) = CHR ''/''"
proof (cases p)
  case Nil
  with assms show ?thesis by simp
next
  case (Cons c cs)
  show ?thesis
  proof (cases cs)
    case Nil
    with Cons assms show ?thesis
      by (auto simp: normalizePathPrefix_def HasSuffix_slash TrimPrefix_def)
  next
    case (Cons d ds)
    with \<open>p = c # cs\<close> show ?thesis
      by (auto simp: normalizePathPrefix_def HasSuffix_slash TrimPrefix_def Let_def)
  qed
qed

lemma normalize_no_leading:
  assumes "p \<noteq> ''''" "p \<noteq> ''/''" "\<not> prefix ''//'' p"
  shows "hd (normalizePathPrefix p) \<noteq> CHR ''/''"
proof (cases p)
  case Nil
  with assms show ?thesis by simp
next
  case (Cons c cs)
  show ?thesis
  proof (cases cs)
    case Nil
    with Cons assms show ?thesis
      by (auto simp: normalizePathPrefix_def HasSuffix_slash TrimPrefix_def)
  next
    case (Cons d ds)
    with \<open>p = c # cs\<close> assms show ?thesis
      by (auto simp: normalizePathPrefix_def HasSuffix_slash TrimPrefix_def Let_def)
  qed
qed

lemma normalize_idem:
  assumes "\<not> prefix ''//'' p"
  shows "normalizePathPrefix (normalizePathPrefix p) = normalizePathPrefix p"
proof (cases "p = '''' \<or> p = ''/''")
  case True
  then show ?thesis by (auto simp: normalizePathPrefix_def)
next
  case False
  then show ?thesis
    using normalize_fixed normalize_nonempty normalize_no_leading assms by metis
qed

lemma suffix_TrimPrefix: "suffix s (TrimPrefix x pre) \<Longrightarrow> suffix s x"
  unfolding TrimPrefix_def
  by (auto split: if_splits intro: suffix_order.trans [OF _ suffix_drop])

lemma normalize_one_trailing:
  assumes "\<not> suffix ''//'' p"
  shows "\<not> suffix ''//'' (normalizePathPrefix p)"
proof
  assume a: "suffix ''//'' (normalizePathPrefix p)"
  then have ne: "p \<noteq> ''''" "p \<noteq> ''/''" by (auto simp: normalizePathPrefix_def)
  show False
  proof (cases "HasSuffix p ''/''")
    case True
    with a ne have "suffix ''//'' (TrimPrefix p ''/'')" by (simp add: normalizePathPrefix_def)
    then show False using assms suffix_TrimPrefix by blast
  next
    case False
    with a ne have "suffix ''//'' (TrimPrefix (p @ ''/'') ''/'')" by (simp add: normalizePathPrefix_def)
    then have "suffix ''//'' (p @ ''/'')" using suffix_TrimPrefix by blast
    with False show False by (simp add: HasSuffix_def)
  qed
qed

lemma normalize_leading:
  assumes "prefix ''//'' p"
  shows "prefix ''/'' (normalizePathPrefix p)"
proof -
  from assms obtain q where p: "p = CHR ''/'' # CHR ''/'' # q" by (cases p) (auto simp: prefix_def)
  show ?thesis
    by (simp add: p normalizePathPrefix_def TrimPrefix_def Let_def)
qed

lemma normalize_not_fixed:
  assumes "prefix ''/'' r"
  shows "normalizePathPrefix r \<noteq> r"
proof -
  from assms obtain q where r: "r = CHR ''/'' # q" by (cases r) auto
  show ?thesis
  proof (cases "q = [] \<or> last q = CHR ''/''")
    case True
    then have "length (normalizePathPrefix r) < length r"
      by (auto simp add: r normalizePathPrefix_def TrimPrefix_def Let_def HasSuffix_slash)
    then show ?thesis by auto
  next
    case False
    then have "normalizePathPrefix r = q @ ''/''"
      by (auto simp add: r normalizePathPrefix_def TrimPrefix_def Let_def HasSuffix_slash)
    moreover have "last (q @ ''/'') \<noteq> last r" using False by (auto simp: r)
    ultimately show ?thesis by metis
  qed
qed

section \<open>Properties of the interactive import\<close>

lemma WriteSecret_sys:
  "snd (WriteSecret X p d s) = s\<lparr>world := snd (kvPut X p d (world s)), trace := trace s @ [CallWriteSecret p d]\<rparr>"
  by (simp add: WriteSecret_def emit_def split: prod.splits option.splits)

lemma SecretExists_sys:
  "snd (SecretExists X p s) = s\<lparr>world := snd (kvGet X p (world s)), trace := trace s @ [CallSecretExists p]\<rparr>"
  by (simp add: SecretExists_def emit_def split: prod.splits option.splits sum.splits)

lemma writeBlock_cases:
  assumes "writeBlock X sec dp st = (c, st')"
  shows "c = Continue \<and> confirmAll st' = confirmAll st \<and> skipAll st' = skipAll st \<and>
         skipped st' = skipped st \<and>
         (imported st' = imported st + 1 \<and> failed st' = failed st \<or>
          imported st' = imported st \<and> failed st' = failed st + 1) \<and>
         (\<exists>out. trace (isys st') = trace (isys st) @ [CallWriteSecret dp (Data sec), Print out]) \<and>
         asked (isys st') = asked (isys st)"
  using assms WriteSecret_sys [of X dp "Data sec" "isys st"]
  by (auto simp: writeBlock_def print_def emit_def split: prod.splits option.splits)

lemma promptBlock_cases:
  assumes "promptBlock X tot i sec dp st = (co, st')"
  shows "failed st' = failed st \<and> imported st' = imported st \<and>
         (co = Some Continue \<longrightarrow> skipped st' = skipped st + 1) \<and>
         (co \<noteq> Some Continue \<longrightarrow> skipped st' = skipped st) \<and>
         (confirmAll st \<longrightarrow> confirmAll st') \<and> (skipAll st \<longrightarrow> skipAll st') \<and>
         (co = None \<longrightarrow> skipAll st' = skipAll st) \<and>
         (co \<noteq> None \<longrightarrow> confirmAll st' = confirmAll st)"
  using assms
  by (auto simp: promptBlock_def split: prod.splits option.splits ImportConfirmation.splits)

lemma interactiveBody_counts:
  assumes "interactiveBody X pp tot i sec st = (c, st')"
  shows "(c = Continue \<longrightarrow> incOne (totals st) (totals st')) \<and>
         (c \<noteq> Continue \<longrightarrow> imported st' = imported st \<and> skipped st' = skipped st \<and> failed st' = failed st)"
proof (cases "skipAll st")
  case True
  with assms show ?thesis by (auto simp: interactiveBody_def incOne_def totals_def)
next
  case notskip: False
  show ?thesis
  proof (cases "confirmAll st")
    case True
    with notskip assms have "writeBlock X sec (pp @ Path sec) st = (c, st')"
      by (simp add: interactiveBody_def)
    from writeBlock_cases [OF this] show ?thesis by (auto simp: incOne_def totals_def)
  next
    case False
    obtain co st1 where pb: "promptBlock X tot i sec (pp @ Path sec) st = (co, st1)"
      by (cases "promptBlock X tot i sec (pp @ Path sec) st")
    note p = promptBlock_cases [OF pb]
    show ?thesis
    proof (cases co)
      case None
      with pb False notskip assms have "writeBlock X sec (pp @ Path sec) st1 = (c, st')"
        by (simp add: interactiveBody_def)
      from writeBlock_cases [OF this] p None show ?thesis by (auto simp: incOne_def totals_def)
    next
      case (Some c')
      with pb False notskip assms have "c = c'" "st' = st1"
        by (simp_all add: interactiveBody_def)
      with p Some show ?thesis by (auto simp: incOne_def totals_def)
    qed
  qed
qed

lemma interactiveBody_flags:
  assumes "interactiveBody X pp tot i sec st = (c, st')"
  shows "(confirmAll st \<longrightarrow> confirmAll st') \<and> (skipAll st \<longrightarrow> skipAll st') \<and>
         (\<not> (confirmAll st \<and> skipAll st) \<longrightarrow> \<not> (confirmAll st' \<and> skipAll st'))"
proof (cases "skipAll st")
  case True
  with assms show ?thesis by (auto simp: interactiveBody_def)
next
  case notskip: False
  show ?thesis
  proof (cases "confirmAll st")
    case True
    with notskip assms have "writeBlock X sec (pp @ Path sec) st = (c, st')"
      by (simp add: interactiveBody_def)
    from writeBlock_cases [OF this] True notskip show ?thesis by auto
  next
    case False
    obtain co st1 where pb: "promptBlock X tot i sec (pp @ Path sec) st = (co, st1)"
      by (cases "promptBlock X tot i sec (pp @ Path sec) st")
    note p = promptBlock_cases [OF pb]
    show ?thesis
    proof (cases co)
      case None
      with pb False notskip assms have "writeBlock X sec (pp @ Path sec) st1 = (c, st')"
        by (simp add: interactiveBody_def)
      from writeBlock_cases [OF this] p None False notskip show ?thesis by auto
    next
      case (Some c')
      with pb False notskip assms have "c = c'" "st' = st1"
        by (simp_all add: interactiveBody_def)
      with p Some False notskip show ?thesis by auto
    qed
  qed
qed

lemma interactiveLoop_append:
  "interactiveLoop X pp tot i (xs @ ys) st =
     (case interactiveLoop X pp tot i xs st of
        (Continue, st1) \<Rightarrow> interactiveLoop X pp tot (i + int (length xs)) ys st1
      | (Return r, st1) \<Rightarrow> (Return r, st1))"
proof (induction xs arbitrary: i st)
  case Nil
  show ?case by simp
next
  case (Cons x xs)
  show ?case
  proof (cases "interactiveBody X pp tot i x st")
    case (Pair c st1)
    have "i + 1 + int (length xs) = i + int (length (x # xs))" by simp
    then show ?thesis using Pair Cons [of "i + 1" st1]
      by (cases c) (auto simp: add.assoc split: prod.splits ctl.splits)
  qed
qed

lemma interactiveLoop_flags:
  "interactiveLoop X pp tot i xs st = (c, st') \<Longrightarrow>
     (confirmAll st \<longrightarrow> confirmAll st') \<and> (skipAll st \<longrightarrow> skipAll st') \<and>
     (\<not> (confirmAll st \<and> skipAll st) \<longrightarrow> \<not> (confirmAll st' \<and> skipAll st'))"
proof (induction xs arbitrary: i st)
  case Nil
  then show ?case by simp
next
  case (Cons x xs)
  obtain c1 st1 where b: "interactiveBody X pp tot i x st = (c1, st1)"
    by (cases "interactiveBody X pp tot i x st")
  note f = interactiveBody_flags [OF b]
  show ?case
  proof (cases c1)
    case Continue
    with b Cons.prems have "interactiveLoop X pp tot (i + 1) xs st1 = (c, st')" by simp
    from Cons.IH [OF this] f show ?thesis by blast
  next
    case (Return r)
    with b Cons.prems have "st' = st1" by simp
    with f show ?thesis by blast
  qed
qed

lemma interactiveLoop_counts:
  "interactiveLoop X pp tot i xs st = (c, st') \<Longrightarrow>
     imported st \<le> imported st' \<and> skipped st \<le> skipped st' \<and> failed st \<le> failed st' \<and>
     (\<exists>k \<le> length xs.
        imported st' + skipped st' + failed st' = imported st + skipped st + failed st + int k \<and>
        (c = Continue \<longrightarrow> k = length xs))"
proof (induction xs arbitrary: i st)
  case Nil
  then show ?case by simp
next
  case (Cons x xs)
  obtain c1 st1 where b: "interactiveBody X pp tot i x st = (c1, st1)"
    by (cases "interactiveBody X pp tot i x st")
  note f = interactiveBody_counts [OF b]
  show ?case
  proof (cases c1)
    case Continue
    with b Cons.prems have "interactiveLoop X pp tot (i + 1) xs st1 = (c, st')" by simp
    from Cons.IH [OF this] obtain k where k: "k \<le> length xs"
      "imported st1 + skipped st1 + failed st1 + int k = imported st' + skipped st' + failed st'"
      "c = Continue \<longrightarrow> k = length xs"
      and m: "imported st1 \<le> imported st'" "skipped st1 \<le> skipped st'" "failed st1 \<le> failed st'"
      by auto
    from f Continue have i1: "incOne (totals st) (totals st1)" by simp
    have "Suc k \<le> length (x # xs)" using k by simp
    moreover have "imported st' + skipped st' + failed st' = imported st + skipped st + failed st + int (Suc k)"
      using k(2) i1 by (auto simp: incOne_def totals_def)
    moreover have "c = Continue \<longrightarrow> Suc k = length (x # xs)" using k(3) by simp
    moreover have "imported st \<le> imported st' \<and> skipped st \<le> skipped st' \<and> failed st \<le> failed st'"
      using m i1 by (auto simp: incOne_def totals_def)
    ultimately show ?thesis by blast
  next
    case (Return r)
    with b Cons.prems have "st' = st1" "c = Return r" by simp_all
    with f Return have "imported st' = imported st \<and> skipped st' = skipped st \<and> failed st' = failed st" by simp
    then show ?thesis using \<open>c = Return r\<close> by (intro conjI exI [of _ 0]) simp_all
  qed
qed

lemma interactiveLoop_early_return:
  "interactiveLoop X pp tot i xs st = (Return r, st') \<Longrightarrow>
     imported st' + skipped st' + failed st' <
       imported st + skipped st + failed st + int (length xs)"
proof (induction xs arbitrary: i st)
  case Nil
  then show ?case by simp
next
  case (Cons x xs)
  obtain c1 st1 where b: "interactiveBody X pp tot i x st = (c1, st1)"
    by (cases "interactiveBody X pp tot i x st")
  note f = interactiveBody_counts [OF b]
  show ?case
  proof (cases c1)
    case Continue
    with b Cons.prems have "interactiveLoop X pp tot (i + 1) xs st1 = (Return r, st')" by simp
    from Cons.IH [OF this]
    have "imported st' + skipped st' + failed st' <
        imported st1 + skipped st1 + failed st1 + int (length xs)" .
    moreover from f Continue
    have "imported st1 + skipped st1 + failed st1 = imported st + skipped st + failed st + 1"
      by (auto simp: incOne_def totals_def)
    ultimately show ?thesis by simp
  next
    case (Return r1)
    with b Cons.prems have "st' = st1" by simp
    with f Return show ?thesis by (simp add: totals_def)
  qed
qed

lemma interactiveLoop_skipAll:
  "skipAll st \<Longrightarrow>
     interactiveLoop X pp tot i ys st = (Continue, st\<lparr>skipped := skipped st + int (length ys)\<rparr>)"
proof (induction ys arbitrary: i st)
  case Nil
  show ?case by simp
next
  case (Cons y ys)
  have "interactiveBody X pp tot i y st = (Continue, st\<lparr>skipped := skipped st + 1\<rparr>)"
    using Cons.prems by (simp add: interactiveBody_def)
  then show ?case using Cons.IH [of "st\<lparr>skipped := skipped st + 1\<rparr>" "i + 1"] Cons.prems
    by (simp add: add.assoc)
qed

lemma interactiveLoop_confirmAll:
  "confirmAll st \<Longrightarrow> \<not> skipAll st \<Longrightarrow>
     \<exists>st2. interactiveLoop X pp tot i ys st = (Continue, st2) \<and> confirmAll st2 \<and> \<not> skipAll st2 \<and>
       calls (trace (isys st2)) =
         calls (trace (isys st)) @ map (\<lambda>y. CallWriteSecret (pp @ Path y) (Data y)) ys \<and>
       asked (isys st2) = asked (isys st)"
proof (induction ys arbitrary: i st)
  case Nil
  then show ?case by simp
next
  case (Cons y ys)
  obtain c st1 where w: "writeBlock X y (pp @ Path y) st = (c, st1)"
    by (cases "writeBlock X y (pp @ Path y) st")
  from writeBlock_cases [OF w] obtain out where
    c: "c = Continue" and f: "confirmAll st1" "\<not> skipAll st1"
    and t: "trace (isys st1) = trace (isys st) @ [CallWriteSecret (pp @ Path y) (Data y), Print out]"
    and a: "asked (isys st1) = asked (isys st)"
    using Cons.prems by auto
  have b: "interactiveBody X pp tot i y st = (Continue, st1)"
    using Cons.prems w c by (simp add: interactiveBody_def)
  from Cons.IH [OF f, of "i + 1"] obtain st2 where
    l: "interactiveLoop X pp tot (i + 1) ys st1 = (Continue, st2)" "confirmAll st2" "\<not> skipAll st2"
       "calls (trace (isys st2)) =
          calls (trace (isys st1)) @ map (\<lambda>y. CallWriteSecret (pp @ Path y) (Data y)) ys"
       "asked (isys st2) = asked (isys st1)"
    by blast
  have "calls (trace (isys st1)) = calls (trace (isys st)) @ [CallWriteSecret (pp @ Path y) (Data y)]"
    by (simp add: t calls_def)
  with l a b show ?case by simp
qed

lemma interactiveBody_prompt_failed:
  assumes "\<not> skipAll st" "\<not> confirmAll st"
    and "SecretExists X (pp @ Path sec) (isys st) = ((ex, err), s1)"
    and "AskOne X (asked (isys st)) = Inl e"
  shows "interactiveBody X pp tot i sec st =
           (Return (Some (Errorf_w ''prompt failed: '' e)),
            st\<lparr>isys := s1\<lparr>trace := trace (isys st) @ CallSecretExists (pp @ Path sec) #
                       (case err of None \<Rightarrow> [] | Some e' \<Rightarrow> [Print (WarnExistsFailed e')]) @
                       [Prompt (i + 1) tot (Path sec) (pp @ Path sec) ex],
                     asked := Suc (asked (isys st))\<rparr>\<rparr>)"
proof -
  from assms(3) have s1: "s1 = (isys st)\<lparr>world := snd (kvGet X (pp @ Path sec) (world (isys st))),
      trace := trace (isys st) @ [CallSecretExists (pp @ Path sec)]\<rparr>"
    using SecretExists_sys [of X "pp @ Path sec" "isys st"] by simp
  show ?thesis
    using assms
    by (cases err) (simp_all add: interactiveBody_def promptBlock_def promptImport_def Let_def
        print_def emit_def s1)
qed

lemma interactiveBody_abort:
  assumes "\<not> skipAll st" "\<not> confirmAll st"
    and "SecretExists X (pp @ Path sec) (isys st) = ((ex, err), s1)"
    and "AskOne X (asked (isys st)) = Inr sel"
    and "sel \<noteq> ''Yes''" "sel \<noteq> ''No''" "sel \<noteq> ''Yes to all remaining''"
        "sel \<noteq> ''No to all remaining''"
  shows "interactiveBody X pp tot i sec st =
           (Return None,
            st\<lparr>isys := s1\<lparr>trace := trace (isys st) @ CallSecretExists (pp @ Path sec) #
                       (case err of None \<Rightarrow> [] | Some e' \<Rightarrow> [Print (WarnExistsFailed e')]) @
                       [Prompt (i + 1) tot (Path sec) (pp @ Path sec) ex,
                        Print (AbortedByUser (imported st) (skipped st))],
                     asked := Suc (asked (isys st))\<rparr>\<rparr>)"
proof -
  from assms(3) have s1: "s1 = (isys st)\<lparr>world := snd (kvGet X (pp @ Path sec) (world (isys st))),
      trace := trace (isys st) @ [CallSecretExists (pp @ Path sec)]\<rparr>"
    using SecretExists_sys [of X "pp @ Path sec" "isys st"] by simp
  show ?thesis
    using assms
    by (cases err) (simp_all add: interactiveBody_def promptBlock_def promptImport_def Let_def
        print_def emit_def s1)
qed

lemma promptBlock_answer:
  assumes "promptBlock X tot i sec dp st = (co, st')" and "AskOne X (asked (isys st)) = Inr sel"
  shows "asked (isys st') = Suc (asked (isys st)) \<and>
         (sel = ''Yes'' \<longrightarrow> co = None \<and> confirmAll st' = confirmAll st) \<and>
         (sel = ''No'' \<longrightarrow> co = Some Continue \<and> skipAll st' = skipAll st) \<and>
         (sel = ''Yes to all remaining'' \<longrightarrow> co = None \<and> confirmAll st')"
proof -
  obtain ex err s1 where e: "SecretExists X dp (isys st) = ((ex, err), s1)"
    by (cases "SecretExists X dp (isys st)") auto
  then have a: "asked s1 = asked (isys st)"
    using SecretExists_sys [of X dp "isys st"] by simp
  show ?thesis
    using assms e a
    by (cases err)
       (auto simp add: promptBlock_def promptImport_def Let_def print_def emit_def split: if_splits)
qed

lemma writeBlock_ok:
  assumes "writeBlock X sec dp st = (c, st')" and "\<forall>p d w. fst (kvPut X p d w) = None"
  shows "imported st' = imported st + 1 \<and> failed st' = failed st"
proof -
  from assms(2) have "fst (kvPut X dp (Data sec) (world (isys st))) = None" by blast
  then show ?thesis using assms(1)
    by (cases "kvPut X dp (Data sec) (world (isys st))")
       (auto simp: writeBlock_def WriteSecret_def)
qed

lemma interactiveBody_answer:
  assumes b: "interactiveBody X pp tot i sec st = (c, st')"
    and ok: "\<forall>p d w. fst (kvPut X p d w) = None"
    and ns: "\<not> skipAll st" and nc: "\<not> confirmAll st"
    and ask: "AskOne X (asked (isys st)) = Inr sel"
  shows "asked (isys st') = Suc (asked (isys st)) \<and>
         (sel = ''Yes'' \<longrightarrow> c = Continue \<and> \<not> confirmAll st' \<and> \<not> skipAll st' \<and>
            imported st' = imported st + 1 \<and> skipped st' = skipped st \<and> failed st' = failed st) \<and>
         (sel = ''No'' \<longrightarrow> c = Continue \<and> \<not> confirmAll st' \<and> \<not> skipAll st' \<and>
            imported st' = imported st \<and> skipped st' = skipped st + 1 \<and> failed st' = failed st) \<and>
         (sel = ''Yes to all remaining'' \<longrightarrow> c = Continue \<and> confirmAll st' \<and> \<not> skipAll st' \<and>
            imported st' = imported st + 1 \<and> skipped st' = skipped st \<and> failed st' = failed st)"
proof -
  obtain co st1 where pb: "promptBlock X tot i sec (pp @ Path sec) st = (co, st1)"
    by (cases "promptBlock X tot i sec (pp @ Path sec) st")
  note p = promptBlock_cases [OF pb] promptBlock_answer [OF pb ask]
  show ?thesis
  proof (cases co)
    case None
    with pb ns nc b have w: "writeBlock X sec (pp @ Path sec) st1 = (c, st')"
      by (simp add: interactiveBody_def)
    from writeBlock_cases [OF w] writeBlock_ok [OF w ok] p None ns nc show ?thesis by auto
  next
    case (Some c')
    with pb ns nc b have "c = c'" "st' = st1"
      by (simp_all add: interactiveBody_def)
    with p Some ns nc show ?thesis by auto
  qed
qed

lemma interactiveBody_confirmed:
  assumes b: "interactiveBody X pp tot i sec st = (c, st')"
    and ok: "\<forall>p d w. fst (kvPut X p d w) = None"
    and ns: "\<not> skipAll st" and nc: "confirmAll st"
  shows "c = Continue \<and> imported st' = imported st + 1 \<and> skipped st' = skipped st \<and>
         failed st' = failed st"
proof -
  from b ns nc have w: "writeBlock X sec (pp @ Path sec) st = (c, st')"
    by (simp add: interactiveBody_def)
  from writeBlock_cases [OF w] writeBlock_ok [OF w ok] show ?thesis by auto
qed

lemma interactiveBody_no_summary:
  assumes "interactiveBody X pp tot i sec st = (Continue, st')"
  shows "filter isSummary (trace (isys st')) = filter isSummary (trace (isys st))"
proof (cases "skipAll st")
  case True
  with assms show ?thesis by (auto simp: interactiveBody_def)
next
  case notskip: False
  have wb: "filter isSummary (trace (isys b)) = filter isSummary (trace (isys a))"
    if "writeBlock X sec (pp @ Path sec) a = (Continue, b)"
    for a b
    using that WriteSecret_sys [of X "pp @ Path sec" "Data sec" "isys a"]
    by (auto simp: writeBlock_def print_def emit_def split: prod.splits option.splits)
  show ?thesis
  proof (cases "confirmAll st")
    case True
    with notskip assms wb show ?thesis by (simp add: interactiveBody_def)
  next
    case False
    obtain ex err s1 where e: "SecretExists X (pp @ Path sec) (isys st) = ((ex, err), s1)"
      by (cases "SecretExists X (pp @ Path sec) (isys st)") auto
    then have t: "trace s1 = trace (isys st) @ [CallSecretExists (pp @ Path sec)]"
      using SecretExists_sys [of X "pp @ Path sec" "isys st"] by simp
    obtain co st1 where pb: "promptBlock X tot i sec (pp @ Path sec) st = (co, st1)"
      by (cases "promptBlock X tot i sec (pp @ Path sec) st")
    have p: "co \<noteq> Some (Return None) \<Longrightarrow>
        filter isSummary (trace (isys st1)) = filter isSummary (trace (isys st))"
      using pb e t
      by (cases err)
         (auto simp: promptBlock_def promptImport_def Let_def print_def emit_def
           split: sum.splits if_splits)
    show ?thesis
    proof (cases co)
      case None
      with pb False notskip assms(1) have "writeBlock X sec (pp @ Path sec) st1 = (Continue, st')"
        by (simp add: interactiveBody_def)
      with wb p None show ?thesis by simp
    next
      case (Some c')
      with pb False notskip assms(1) have "c' = Continue" "st' = st1"
        by (simp_all add: interactiveBody_def)
      with p Some show ?thesis by simp
    qed
  qed
qed

lemma interactiveLoop_no_summary:
  "interactiveLoop X pp tot i xs st = (Continue, st') \<Longrightarrow>
     filter isSummary (trace (isys st')) = filter isSummary (trace (isys st))"
proof (induction xs arbitrary: i st)
  case Nil
  then show ?case by simp
next
  case (Cons x xs)
  obtain c1 st1 where b: "interactiveBody X pp tot i x st = (c1, st1)"
    by (cases "interactiveBody X pp tot i x st")
  show ?case
  proof (cases c1)
    case Continue
    with b Cons.prems(1) have l: "interactiveLoop X pp tot (i + 1) xs st1 = (Continue, st')" by simp
    from b Continue have "interactiveBody X pp tot i x st = (Continue, st1)" by simp
    from Cons.IH [OF l] interactiveBody_no_summary [OF this] show ?thesis by simp
  next
    case (Return r)
    with b Cons.prems show ?thesis by simp
  qed
qed

section \<open>Properties of the parallel import\<close>

lemma pinvI:
  assumes "int (pending st) + imported_p st + skipped_p st + failed_p st = int (chanCap st)"
    and "0 \<le> imported_p st" "0 \<le> skipped_p st" "0 \<le> failed_p st"
    and "workClosed st \<Longrightarrow> unsent st = []"
    and "Exited \<in> set (workers st) \<Longrightarrow> workClosed st \<and> work st = []"
    and "resultsClosed st \<Longrightarrow> list_all (\<lambda>w. w = Exited) (workers st)"
    and "returned st \<noteq> None \<Longrightarrow> results st = [] \<and> resultsClosed st"
  shows "pinv st"
  unfolding pinv_def using assms by blast

lemma pinvD:
  assumes "pinv st"
  shows "int (pending st) + imported_p st + skipped_p st + failed_p st = int (chanCap st)"
    and "0 \<le> imported_p st" "0 \<le> skipped_p st" "0 \<le> failed_p st"
    and "workClosed st \<Longrightarrow> unsent st = []"
    and "Exited \<in> set (workers st) \<Longrightarrow> workClosed st \<and> work st = []"
    and "resultsClosed st \<Longrightarrow> list_all (\<lambda>w. w = Exited) (workers st)"
    and "returned st \<noteq> None \<Longrightarrow> results st = [] \<and> resultsClosed st"
  using assms unfolding pinv_def by blast+

lemma filter_update_length:
  "i < length xs \<Longrightarrow>
     length (filter P (xs[i := y])) + (if P (xs ! i) then 1 else 0) =
     length (filter P xs) + (if P y then 1 else 0)"
proof (induction xs arbitrary: i)
  case Nil
  then show ?case by simp
next
  case (Cons x xs)
  then show ?case by (cases i) auto
qed

lemma Exited_update:
  "Exited \<in> set (xs[i := w]) \<Longrightarrow> w \<noteq> Exited \<Longrightarrow> Exited \<in> set xs"
  using set_update_subset_insert [of xs i w] by auto

lemma all_Exited_nth:
  "list_all (\<lambda>w. w = Exited) xs \<Longrightarrow> i < length xs \<Longrightarrow> xs ! i = Exited"
  by (simp add: list_all_length)

lemma senderStep_inv:
  assumes inv: "pinv st" and step: "senderStep st = Some st'"
  shows "pinv st'"
proof (cases "unsent st")
  case Nil
  with step have st': "st' = st\<lparr>workClosed := True\<rparr>"
    by (simp add: senderStep_def split: if_splits)
  show ?thesis
    using pinvD [OF inv] Nil by (intro pinvI) (simp_all add: st' pending_def)
next
  case (Cons s rest)
  with step have st': "st' = st\<lparr>unsent := rest, work := work st @ [s]\<rparr>"
    by (simp add: senderStep_def split: if_splits)
  from Cons pinvD(5) [OF inv] have nc: "\<not> workClosed st" by auto
  with pinvD(6) [OF inv] have ne: "Exited \<notin> set (workers st)" by auto
  have p: "pending st' = pending st" by (simp add: st' pending_def Cons)
  show ?thesis
  proof (rule pinvI)
    show "int (pending st') + imported_p st' + skipped_p st' + failed_p st' = int (chanCap st')"
      using pinvD(1) [OF inv] by (simp add: p) (simp add: st')
    show "0 \<le> imported_p st'" "0 \<le> skipped_p st'" "0 \<le> failed_p st'"
      using pinvD(2,3,4) [OF inv] by (simp_all add: st')
    show "unsent st' = []" if "workClosed st'" using that nc by (simp add: st')
    show "workClosed st' \<and> work st' = []" if "Exited \<in> set (workers st')"
      using that ne by (simp add: st')
    show "list_all (\<lambda>w. w = Exited) (workers st')" if "resultsClosed st'"
      using that pinvD(7) [OF inv] by (simp add: st')
    show "results st' = [] \<and> resultsClosed st'" if "returned st' \<noteq> None"
      using that pinvD(8) [OF inv] by (simp add: st')
  qed
qed

lemma pending_update:
  assumes "i < length (workers st)"
  shows "length (filter busy ((workers st)[i := w])) + (if busy (workers st ! i) then 1 else 0) =
         length (filter busy (workers st)) + (if busy w then 1 else 0)"
  using filter_update_length [OF assms, of busy w] .

lemma closerStep_inv:
  assumes inv: "pinv st" and step: "closerStep st = Some st'"
  shows "pinv st'"
proof -
  from step have st': "st' = st\<lparr>resultsClosed := True\<rparr>"
    and ex: "list_all (\<lambda>w. w = Exited) (workers st)"
    by (simp_all add: closerStep_def split: if_splits)
  show ?thesis
    using pinvD [OF inv] ex by (intro pinvI) (simp_all add: st' pending_def)
qed

lemma countResult_fields:
  "unsent (countResult r st) = unsent st" "work (countResult r st) = work st"
  "workers (countResult r st) = workers st" "results (countResult r st) = results st"
  "workClosed (countResult r st) = workClosed st" "resultsClosed (countResult r st) = resultsClosed st"
  "returned (countResult r st) = returned st" "chanCap (countResult r st) = chanCap st"
  by (simp_all add: countResult_def Let_def)

lemma countResult_counts:
  "imported_p (countResult r st) = imported_p st + 1 \<and> skipped_p (countResult r st) = skipped_p st \<and>
     failed_p (countResult r st) = failed_p st \<or>
   imported_p (countResult r st) = imported_p st \<and> skipped_p (countResult r st) = skipped_p st + 1 \<and>
     failed_p (countResult r st) = failed_p st \<or>
   imported_p (countResult r st) = imported_p st \<and> skipped_p (countResult r st) = skipped_p st \<and>
     failed_p (countResult r st) = failed_p st + 1"
  by (simp add: countResult_def Let_def)

lemma mainStep_inv:
  assumes inv: "pinv st" and step: "mainStep st = Some st'"
  shows "pinv st'"
proof (cases "results st")
  case Nil
  with step have st': "st' = st\<lparr>returned :=
      Some (if failed_p st > 0
            then Some (ErrorString (formatInt (failed_p st) @ '' secrets failed to import''))
            else None),
      psys := print (ImportComplete (imported_p st) (skipped_p st) (failed_p st)) (psys st)\<rparr>"
    and rc: "resultsClosed st"
    by (simp_all add: mainStep_def split: if_splits)
  show ?thesis
    using pinvD [OF inv] Nil rc by (intro pinvI) (simp_all add: st' pending_def)
next
  case (Cons r rs)
  define st1 where "st1 = st\<lparr>results := rs\<rparr>"
  from Cons step have st': "st' = countResult r st1"
    by (simp add: mainStep_def st1_def)
  have f: "unsent st' = unsent st" "work st' = work st" "workers st' = workers st"
    "results st' = rs" "workClosed st' = workClosed st" "resultsClosed st' = resultsClosed st"
    "returned st' = returned st" "chanCap st' = chanCap st"
    by (simp_all add: st' countResult_fields) (simp_all add: st1_def)
  have p: "pending st = Suc (pending st')"
    by (simp add: pending_def f Cons)
  have c: "imported_p st' + skipped_p st' + failed_p st' = imported_p st + skipped_p st + failed_p st + 1"
    "imported_p st \<le> imported_p st'" "skipped_p st \<le> skipped_p st'" "failed_p st \<le> failed_p st'"
    using countResult_counts [of r st1] by (auto simp: st') (auto simp: st1_def)
  from pinvD(8) [OF inv] Cons have nr: "returned st = None" by (cases "returned st") auto
  show ?thesis
  proof (rule pinvI)
    show "int (pending st') + imported_p st' + skipped_p st' + failed_p st' = int (chanCap st')"
      using pinvD(1) [OF inv] c(1) by (simp add: p f)
    show "0 \<le> imported_p st'" "0 \<le> skipped_p st'" "0 \<le> failed_p st'"
      using pinvD(2,3,4) [OF inv] c by linarith+
    show "unsent st' = []" if "workClosed st'" using that pinvD(5) [OF inv] by (simp add: f)
    show "workClosed st' \<and> work st' = []" if "Exited \<in> set (workers st')"
      using that pinvD(6) [OF inv] by (simp add: f)
    show "list_all (\<lambda>w. w = Exited) (workers st')" if "resultsClosed st'"
      using that pinvD(7) [OF inv] by (simp add: f)
    show "results st' = [] \<and> resultsClosed st'" if "returned st' \<noteq> None"
      using that nr by (simp add: f)
  qed
qed

lemma worker_move_inv:
  assumes inv: "pinv st" and i: "i < length (workers st)"
    and w: "workers st ! i \<noteq> Exited"
    and ws: "workers st' = (workers st)[i := w']"
    and p: "pending st' = pending st"
    and ex: "w' = Exited \<Longrightarrow> workClosed st \<and> work st = []"
    and wk: "Exited \<in> set (workers st) \<Longrightarrow> work st' = []"
    and same: "imported_p st' = imported_p st" "skipped_p st' = skipped_p st" "failed_p st' = failed_p st"
      "chanCap st' = chanCap st" "unsent st' = unsent st" "workClosed st' = workClosed st"
      "resultsClosed st' = resultsClosed st" "returned st' = returned st"
    and wk2: "w' = Exited \<Longrightarrow> work st' = work st"
  shows "pinv st'"
proof (rule pinvI)
  show "int (pending st') + imported_p st' + skipped_p st' + failed_p st' = int (chanCap st')"
    using pinvD(1) [OF inv] by (simp add: p same)
  show "0 \<le> imported_p st'" "0 \<le> skipped_p st'" "0 \<le> failed_p st'"
    using pinvD(2,3,4) [OF inv] by (simp_all add: same)
  show "unsent st' = []" if "workClosed st'" using that pinvD(5) [OF inv] by (simp add: same)
  show "workClosed st' \<and> work st' = []" if e: "Exited \<in> set (workers st')"
  proof (cases "w' = Exited")
    case True
    with ex wk2 show ?thesis by (simp add: same)
  next
    case False
    with e ws have "Exited \<in> set (workers st)" using Exited_update by metis
    with pinvD(6) [OF inv] wk show ?thesis by (simp add: same)
  qed
  have "\<not> resultsClosed st"
    using pinvD(7) [OF inv] all_Exited_nth [OF _ i] w by blast
  then show "list_all (\<lambda>w. w = Exited) (workers st')" if "resultsClosed st'"
    using that by (simp add: same)
  from \<open>\<not> resultsClosed st\<close> pinvD(8) [OF inv] have "returned st = None" by blast
  then show "results st' = [] \<and> resultsClosed st'" if "returned st' \<noteq> None"
    using that by (simp add: same)
qed

lemma workerStep_inv:
  assumes inv: "pinv st" and step: "workerStep X fl pp i st = Some st'"
  shows "pinv st'"
proof -
  from step have i: "i < length (workers st)"
    by (auto simp: workerStep_def split: if_splits)
  note u = pending_update [OF i]
  show ?thesis
  proof (cases "workers st ! i")
    case Waiting
    show ?thesis
    proof (cases "work st")
      case Nil
      with Waiting step i have st': "st' = st\<lparr>workers := (workers st)[i := Exited]\<rparr>"
        and wc: "workClosed st"
        by (simp_all add: workerStep_def split: if_splits)
      show ?thesis
        using u [of Exited] Waiting Nil wc
        by (intro worker_move_inv [OF inv i, of st' Exited]) (simp_all add: st' pending_def)
    next
      case (Cons s rest)
      with Waiting step i have st': "st' = st\<lparr>work := rest, workers := (workers st)[i := Checking s]\<rparr>"
        by (simp add: workerStep_def)
      from Cons pinvD(6) [OF inv] have "Exited \<notin> set (workers st)" by auto
      then show ?thesis
        using u [of "Checking s"] Waiting Cons
        by (intro worker_move_inv [OF inv i, of st' "Checking s"]) (simp_all add: st' pending_def)
    qed
  next
    case (Checking s)
    obtain ro s1 where c: "importSecretCheck X fl s pp (psys st) = (ro, s1)"
      by (cases "importSecretCheck X fl s pp (psys st)")
    show ?thesis
    proof (cases ro)
      case None
      with c Checking step i have st': "st' = st\<lparr>workers := (workers st)[i := Writing s], psys := s1\<rparr>"
        by (simp add: workerStep_def)
      show ?thesis
        using u [of "Writing s"] Checking pinvD(6) [OF inv]
        by (intro worker_move_inv [OF inv i, of st' "Writing s"]) (simp_all add: st' pending_def)
    next
      case (Some r)
      with c Checking step i have st': "st' = st\<lparr>workers := (workers st)[i := Sending r], psys := s1\<rparr>"
        by (simp add: workerStep_def)
      show ?thesis
        using u [of "Sending r"] Checking pinvD(6) [OF inv]
        by (intro worker_move_inv [OF inv i, of st' "Sending r"]) (simp_all add: st' pending_def)
    qed
  next
    case (Writing s)
    obtain r s1 where c: "importSecretWrite X s pp (psys st) = (r, s1)"
      by (cases "importSecretWrite X s pp (psys st)")
    with Writing step i have st': "st' = st\<lparr>workers := (workers st)[i := Sending r], psys := s1\<rparr>"
      by (simp add: workerStep_def)
    show ?thesis
      using u [of "Sending r"] Writing pinvD(6) [OF inv]
      by (intro worker_move_inv [OF inv i, of st' "Sending r"]) (simp_all add: st' pending_def)
  next
    case (Sending r)
    with step i have st': "st' = st\<lparr>workers := (workers st)[i := Waiting], results := results st @ [r]\<rparr>"
      by (simp add: workerStep_def split: if_splits)
    show ?thesis
      using u [of Waiting] Sending pinvD(6) [OF inv]
      by (intro worker_move_inv [OF inv i, of st' Waiting]) (simp_all add: st' pending_def)
  next
    case Exited
    with step i show ?thesis by (simp add: workerStep_def)
  qed
qed

lemma pstep_inv:
  assumes "pinv st" "pstep X fl pp g st = Some st'"
  shows "pinv st'"
proof (cases g)
  case Sender
  with assms show ?thesis by (auto simp: pstep_def split: if_splits intro: senderStep_inv)
next
  case (Worker i)
  with assms show ?thesis by (auto simp: pstep_def split: if_splits intro: workerStep_inv)
next
  case Closer
  with assms show ?thesis by (auto simp: pstep_def split: if_splits intro: closerStep_inv)
next
  case Main
  with assms show ?thesis by (auto simp: pstep_def split: if_splits intro: mainStep_inv)
qed

lemma pexec_inv: "pinv st \<Longrightarrow> pexec X fl pp sched st = Some st' \<Longrightarrow> pinv st'"
proof (induction sched arbitrary: st)
  case Nil
  then show ?case by simp
next
  case (Cons g gs)
  from Cons.prems(2) obtain st1 where s: "pstep X fl pp g st = Some st1"
    and r: "pexec X fl pp gs st1 = Some st'"
    by (auto split: option.splits)
  from Cons.IH [OF pstep_inv [OF Cons.prems(1) s] r] show ?case .
qed

lemma pinv_init: "pinv (parallelInit fl export s)"
  by (simp add: pinv_def parallelInit_def pending_def)

lemma pinv_returned:
  assumes inv: "pinv st" and r: "returned st \<noteq> None" and w: "workers st \<noteq> []"
  shows "imported_p st + skipped_p st + failed_p st = int (chanCap st)"
proof -
  from pinvD(8) [OF inv r] have res: "results st = []" "resultsClosed st" by simp_all
  from pinvD(7) [OF inv res(2)] have all: "list_all (\<lambda>w. w = Exited) (workers st)" .
  then have nb: "filter busy (workers st) = []"
    by (auto simp: filter_empty_conv list_all_iff)
  from w obtain x xs where "workers st = x # xs" by (cases "workers st") auto
  with all have "Exited \<in> set (workers st)" by simp
  from pinvD(6) [OF inv this] have wk: "workClosed st" "work st = []" by simp_all
  from pinvD(5) [OF inv wk(1)] have "unsent st = []" .
  with res wk nb have "pending st = 0" by (simp add: pending_def)
  with pinvD(1) [OF inv] show ?thesis by simp
qed

lemma sum_list_update_rank:
  "i < length xs \<Longrightarrow>
     sum_list (map rank (xs[i := y])) + rank (xs ! i) = sum_list (map rank xs) + rank y"
proof (induction xs arbitrary: i)
  case Nil
  then show ?case by simp
next
  case (Cons x xs)
  then show ?case by (cases i) auto
qed

lemma senderStep_decreases: "senderStep st = Some st' \<Longrightarrow> stepsLeft st' < stepsLeft st"
  by (cases "unsent st") (auto simp: senderStep_def stepsLeft_def split: if_splits)

lemma closerStep_decreases: "closerStep st = Some st' \<Longrightarrow> stepsLeft st' < stepsLeft st"
  by (auto simp: closerStep_def stepsLeft_def split: if_splits)

lemma mainStep_decreases:
  assumes "returned st = None" "mainStep st = Some st'"
  shows "stepsLeft st' < stepsLeft st"
proof (cases "results st")
  case Nil
  with assms show ?thesis by (auto simp: mainStep_def stepsLeft_def split: if_splits)
next
  case (Cons r rs)
  with assms have "st' = countResult r (st\<lparr>results := rs\<rparr>)" by (simp add: mainStep_def)
  then show ?thesis using Cons by (simp add: stepsLeft_def countResult_fields)
qed

lemma workerStep_decreases:
  assumes step: "workerStep X fl pp i st = Some st'"
  shows "stepsLeft st' < stepsLeft st"
proof -
  from step have i: "i < length (workers st)"
    by (auto simp: workerStep_def split: if_splits)
  note u = sum_list_update_rank [OF i]
  show ?thesis
  proof (cases "workers st ! i")
    case Waiting
    show ?thesis
    proof (cases "work st")
      case Nil
      with Waiting step i have "st' = st\<lparr>workers := (workers st)[i := Exited]\<rparr>"
        by (simp add: workerStep_def split: if_splits)
      with u [of Exited] Waiting show ?thesis by (simp add: stepsLeft_def)
    next
      case (Cons s rest)
      with Waiting step i have "st' = st\<lparr>work := rest, workers := (workers st)[i := Checking s]\<rparr>"
        by (simp add: workerStep_def)
      with u [of "Checking s"] Waiting Cons show ?thesis by (simp add: stepsLeft_def)
    qed
  next
    case (Checking s)
    obtain ro s1 where c: "importSecretCheck X fl s pp (psys st) = (ro, s1)"
      by (cases "importSecretCheck X fl s pp (psys st)")
    show ?thesis
    proof (cases ro)
      case None
      with c Checking step i have "st' = st\<lparr>workers := (workers st)[i := Writing s], psys := s1\<rparr>"
        by (simp add: workerStep_def)
      with u [of "Writing s"] Checking show ?thesis by (simp add: stepsLeft_def)
    next
      case (Some r)
      with c Checking step i have "st' = st\<lparr>workers := (workers st)[i := Sending r], psys := s1\<rparr>"
        by (simp add: workerStep_def)
      with u [of "Sending r"] Checking show ?thesis by (simp add: stepsLeft_def)
    qed
  next
    case (Writing s)
    obtain r s1 where c: "importSecretWrite X s pp (psys st) = (r, s1)"
      by (cases "importSecretWrite X s pp (psys st)")
    with Writing step i have "st' = st\<lparr>workers := (workers st)[i := Sending r], psys := s1\<rparr>"
      by (simp add: workerStep_def)
    with u [of "Sending r"] Writing show ?thesis by (simp add: stepsLeft_def)
  next
    case (Sending r)
    with step i have "st' = st\<lparr>workers := (workers st)[i := Waiting], results := results st @ [r]\<rparr>"
      by (simp add: workerStep_def split: if_splits)
    with u [of Waiting] Sending show ?thesis by (simp add: stepsLeft_def)
  next
    case Exited
    with step i show ?thesis by (simp add: workerStep_def)
  qed
qed

lemma pstep_decreases:
  assumes "pstep X fl pp g st = Some st'"
  shows "stepsLeft st' < stepsLeft st"
proof -
  from assms have r: "returned st = None" by (auto simp: pstep_def split: if_splits)
  show ?thesis
  proof (cases g)
    case Sender
    with assms r show ?thesis by (simp add: pstep_def senderStep_decreases)
  next
    case (Worker i)
    with assms r show ?thesis by (simp add: pstep_def workerStep_decreases)
  next
    case Closer
    with assms r show ?thesis by (simp add: pstep_def closerStep_decreases)
  next
    case Main
    with assms r show ?thesis by (simp add: pstep_def mainStep_decreases)
  qed
qed

lemma pexec_bounded:
  "pexec X fl pp sched st = Some st' \<Longrightarrow> length sched + stepsLeft st' \<le> stepsLeft st"
proof (induction sched arbitrary: st)
  case Nil
  then show ?case by simp
next
  case (Cons g gs)
  from Cons.prems obtain st1 where s: "pstep X fl pp g st = Some st1"
    and r: "pexec X fl pp gs st1 = Some st'"
    by (auto split: option.splits)
  from Cons.IH [OF r] pstep_decreases [OF s] show ?case by simp
qed

lemma busy_filter_nonempty:
  "i < length ws \<Longrightarrow> busy (ws ! i) \<Longrightarrow> 0 < length (filter busy ws)"
  by (metis filter_empty_conv length_greater_0_conv nth_mem)

lemma pending_le_cap:
  assumes "pinv st"
  shows "pending st \<le> chanCap st"
  using pinvD(1,2,3,4) [OF assms] by linarith

lemma worker_enabled:
  assumes inv: "pinv st" and i: "i < length (workers st)" and w: "workers st ! i \<noteq> Exited"
    and wc: "workClosed st"
  shows "workerStep X fl pp i st \<noteq> None"
proof (cases "workers st ! i")
  case Waiting
  with i wc show ?thesis by (simp add: workerStep_def split: list.splits)
next
  case (Checking s)
  with i show ?thesis by (simp add: workerStep_def split: prod.splits option.splits)
next
  case (Writing s)
  with i show ?thesis by (simp add: workerStep_def split: prod.splits)
next
  case (Sending r)
  with busy_filter_nonempty [OF i] have "0 < length (filter busy (workers st))" by simp
  with pending_le_cap [OF inv] have "length (results st) < chanCap st"
    unfolding pending_def by linarith
  with Sending i show ?thesis by (simp add: workerStep_def)
next
  case Exited
  with w show ?thesis by simp
qed

lemma pstep_progress:
  assumes inv: "pinv st" and r: "returned st = None"
  shows "\<exists>g. pstep X fl pp g st \<noteq> None"
proof (cases "unsent st")
  case (Cons s rest)
  with pending_le_cap [OF inv] have "length (work st) < chanCap st"
    by (simp add: pending_def)
  with Cons r have "pstep X fl pp Sender st \<noteq> None"
    by (simp add: pstep_def senderStep_def)
  then show ?thesis ..
next
  case Nil
  show ?thesis
  proof (cases "workClosed st")
    case False
    with Nil r have "pstep X fl pp Sender st \<noteq> None"
      by (simp add: pstep_def senderStep_def)
    then show ?thesis ..
  next
    case True
    show ?thesis
    proof (cases "list_all (\<lambda>w. w = Exited) (workers st)")
      case False
      then obtain i where i: "i < length (workers st)" "workers st ! i \<noteq> Exited"
        by (auto simp: list_all_length)
      from worker_enabled [OF inv i True] r have "pstep X fl pp (Worker i) st \<noteq> None"
        by (simp add: pstep_def)
      then show ?thesis ..
    next
      case all: True
      show ?thesis
      proof (cases "resultsClosed st")
        case False
        with all r have "pstep X fl pp Closer st \<noteq> None"
          by (simp add: pstep_def closerStep_def)
        then show ?thesis ..
      next
        case True
        with r have "pstep X fl pp Main st \<noteq> None"
          by (simp add: pstep_def mainStep_def split: list.splits)
        then show ?thesis ..
      qed
    qed
  qed
qed

lemma pexec_append:
  "pexec X fl pp (xs @ ys) st =
     (case pexec X fl pp xs st of None \<Rightarrow> None | Some st1 \<Rightarrow> pexec X fl pp ys st1)"
  by (induction xs arbitrary: st) (auto split: option.splits)

lemma pexec_completes:
  "pinv st \<Longrightarrow> \<exists>sched st'. pexec X fl pp sched st = Some st' \<and> returned st' \<noteq> None"
proof (induction st rule: measure_induct_rule [of stepsLeft])
  case (less st)
  show ?case
  proof (cases "returned st")
    case (Some r)
    then have "pexec X fl pp [] st = Some st \<and> returned st \<noteq> None" by simp
    then show ?thesis by blast
  next
    case None
    from pstep_progress [OF less.prems None] obtain g st1 where
      s: "pstep X fl pp g st = Some st1" by blast
    from less.IH [OF pstep_decreases [OF s] pstep_inv [OF less.prems s]]
    obtain sched st' where "pexec X fl pp sched st1 = Some st'" "returned st' \<noteq> None" by blast
    with s have "pexec X fl pp (g # sched) st = Some st' \<and> returned st' \<noteq> None" by simp
    then show ?thesis by blast
  qed
qed

lemma workerStep_frame:
  assumes step: "workerStep X fl pp i st = Some st'"
  shows "imported_p st' = imported_p st \<and> skipped_p st' = skipped_p st \<and>
         failed_p st' = failed_p st \<and> chanCap st' = chanCap st \<and>
         length (workers st') = length (workers st) \<and> returned st' = returned st"
proof -
  from step have i: "i < length (workers st)"
    by (auto simp: workerStep_def split: if_splits)
  show ?thesis
  proof (cases "workers st ! i")
    case Waiting
    show ?thesis
    proof (cases "work st")
      case Nil
      with Waiting step i have "st' = st\<lparr>workers := (workers st)[i := Exited]\<rparr>"
        by (simp add: workerStep_def split: if_splits)
      then show ?thesis by simp
    next
      case (Cons s rest)
      with Waiting step i have "st' = st\<lparr>work := rest, workers := (workers st)[i := Checking s]\<rparr>"
        by (simp add: workerStep_def)
      then show ?thesis by simp
    qed
  next
    case (Checking s)
    obtain ro s1 where c: "importSecretCheck X fl s pp (psys st) = (ro, s1)"
      by (cases "importSecretCheck X fl s pp (psys st)")
    show ?thesis
    proof (cases ro)
      case None
      with c Checking step i have "st' = st\<lparr>workers := (workers st)[i := Writing s], psys := s1\<rparr>"
        by (simp add: workerStep_def)
      then show ?thesis by simp
    next
      case (Some r)
      with c Checking step i have "st' = st\<lparr>workers := (workers st)[i := Sending r], psys := s1\<rparr>"
        by (simp add: workerStep_def)
      then show ?thesis by simp
    qed
  next
    case (Writing s)
    obtain r s1 where c: "importSecretWrite X s pp (psys st) = (r, s1)"
      by (cases "importSecretWrite X s pp (psys st)")
    with Writing step i have "st' = st\<lparr>workers := (workers st)[i := Sending r], psys := s1\<rparr>"
      by (simp add: workerStep_def)
    then show ?thesis by simp
  next
    case (Sending r)
    with step i have "st' = st\<lparr>workers := (workers st)[i := Waiting], results := results st @ [r]\<rparr>"
      by (simp add: workerStep_def split: if_splits)
    then show ?thesis by simp
  next
    case Exited
    with step i show ?thesis by (simp add: workerStep_def)
  qed
qed

lemma pstep_frame:
  assumes "pstep X fl pp g st = Some st'"
  shows "length (workers st') = length (workers st) \<and> chanCap st' = chanCap st"
proof (cases g)
  case Sender
  with assms have "senderStep st = Some st'" by (simp add: pstep_def split: if_splits)
  then show ?thesis by (cases "unsent st") (auto simp: senderStep_def split: if_splits)
next
  case (Worker i)
  with assms have "workerStep X fl pp i st = Some st'" by (simp add: pstep_def split: if_splits)
  from workerStep_frame [OF this] show ?thesis by simp
next
  case Closer
  with assms have "closerStep st = Some st'" by (simp add: pstep_def split: if_splits)
  then show ?thesis by (auto simp: closerStep_def split: if_splits)
next
  case Main
  with assms have m: "mainStep st = Some st'" by (simp add: pstep_def split: if_splits)
  then show ?thesis
    by (cases "results st") (auto simp: mainStep_def countResult_fields split: if_splits)
qed

lemma pexec_frame:
  "pexec X fl pp sched st = Some st' \<Longrightarrow>
     length (workers st') = length (workers st) \<and> chanCap st' = chanCap st"
proof (induction sched arbitrary: st)
  case Nil
  then show ?case by simp
next
  case (Cons g gs)
  from Cons.prems obtain st1 where s: "pstep X fl pp g st = Some st1"
    and r: "pexec X fl pp gs st1 = Some st'"
    by (auto split: option.splits)
  from Cons.IH [OF r] pstep_frame [OF s] show ?case by simp
qed

text \<open>
  Every parallel run ends: a schedule from the initial state has at most
  \<open>6 N + W + 3\<close> steps (\<open>N\<close> secrets, \<open>W\<close> workers), some goroutine can move as long as
  the function has not returned, and so a schedule under which it returns exists.
\<close>

lemma stepsLeft_init:
  "stepsLeft (parallelInit fl export s) =
     6 * length (Secrets export) + nat (importParallelism fl) + 3"
  by (simp add: stepsLeft_def parallelInit_def sum_list_replicate)

lemma runParallelImport_bounded:
  assumes "pexec X fl pp sched (parallelInit fl export s) = Some st"
  shows "length sched \<le> 6 * length (Secrets export) + nat (importParallelism fl) + 3"
  using pexec_bounded [OF assms] by (simp add: stepsLeft_init)

lemma runParallelImport_progress:
  assumes "pexec X fl pp sched (parallelInit fl export s) = Some st" and "returned st = None"
  shows "\<exists>g. pexec X fl pp (sched @ [g]) (parallelInit fl export s) \<noteq> None"
proof -
  from pexec_inv [OF pinv_init assms(1)] have "pinv st" .
  from pstep_progress [OF this assms(2)] obtain g where "pstep X fl pp g st \<noteq> None" by blast
  then have "pexec X fl pp (sched @ [g]) (parallelInit fl export s) \<noteq> None"
    using assms(1) by (auto simp: pexec_append)
  then show ?thesis ..
qed

lemma runParallelImport_completes:
  "\<exists>sched r st. runParallelImport X fl sched export pp s = Some (r, st)"
proof -
  from pexec_completes [OF pinv_init, of X fl pp fl export s]
  obtain sched st where "pexec X fl pp sched (parallelInit fl export s) = Some st"
    "returned st \<noteq> None"
    by blast
  then have "\<exists>r. runParallelImport X fl sched export pp s = Some (r, st)"
    by (auto simp: runParallelImport_def)
  then show ?thesis by blast
qed

lemma runParallelImport_totals:
  assumes w: "1 \<le> importParallelism fl"
    and run: "runParallelImport X fl sched export pp s = Some (r, st)"
  shows "0 \<le> imported_p st \<and> 0 \<le> skipped_p st \<and> 0 \<le> failed_p st \<and>
         imported_p st + skipped_p st + failed_p st = int (length (Secrets export))"
proof -
  from run have e: "pexec X fl pp sched (parallelInit fl export s) = Some st"
    and rr: "returned st = Some r"
    by (auto simp: runParallelImport_def split: option.splits)
  from pexec_inv [OF pinv_init e] have inv: "pinv st" .
  from pexec_frame [OF e] w have "length (workers st) = nat (importParallelism fl)"
    and cap: "chanCap st = length (Secrets export)"
    by (simp_all add: parallelInit_def)
  with w have ne: "workers st \<noteq> []" by auto
  from rr have "returned st \<noteq> None" by simp
  from pinv_returned [OF inv this ne] pinvD(2,3,4) [OF inv] cap show ?thesis by simp
qed

lemma pstep_totals:
  assumes "pstep X fl pp g st = Some st'"
  shows "if g = Main \<and> results st \<noteq> [] then incOne (totals_p st) (totals_p st')
         else totals_p st' = totals_p st"
proof (cases g)
  case Sender
  with assms have "senderStep st = Some st'" by (simp add: pstep_def split: if_splits)
  then have "totals_p st' = totals_p st"
    by (cases "unsent st") (auto simp: senderStep_def totals_p_def split: if_splits)
  with Sender show ?thesis by simp
next
  case (Worker i)
  with assms have "workerStep X fl pp i st = Some st'" by (simp add: pstep_def split: if_splits)
  from workerStep_frame [OF this] Worker show ?thesis by (simp add: totals_p_def)
next
  case Closer
  with assms have "closerStep st = Some st'" by (simp add: pstep_def split: if_splits)
  then have "totals_p st' = totals_p st"
    by (auto simp: closerStep_def totals_p_def split: if_splits)
  with Closer show ?thesis by simp
next
  case Main
  with assms have m: "mainStep st = Some st'" by (simp add: pstep_def split: if_splits)
  show ?thesis
  proof (cases "results st")
    case Nil
    with m have "totals_p st' = totals_p st"
      by (auto simp: mainStep_def totals_p_def split: if_splits)
    with Nil show ?thesis by simp
  next
    case (Cons r rs)
    with m have "st' = countResult r (st\<lparr>results := rs\<rparr>)"
      by (simp add: mainStep_def)
    with countResult_counts [of r "st\<lparr>results := rs\<rparr>"] Main Cons show ?thesis
      by (auto simp: incOne_def totals_p_def)
  qed
qed

section \<open>The claims\<close>

text \<open>
  Claim C1, at the input where the code departs from it. In interactive mode with one
  secret, the answer "Yes" and a write that fails, the failure is counted
  (\<open>failed = 1\<close>) and the summary is printed, but \<open>runInteractiveImport\<close> returns nil:
  the terminal status of the run is zero although a secret failed.
\<close>

theorem interactive_failed_write_returns_nil:
  "fst (runInteractiveImport
          (stubExt \<lparr>Secrets = [secretAt ''a'' 1]\<rparr> [Inr ''Yes''] None
             (Some (ErrorString ''permission denied'')))
          \<lparr>Secrets = [secretAt ''a'' 1]\<rparr> '''' emptySys) = None \<and>
   failed (snd (runInteractiveImport
          (stubExt \<lparr>Secrets = [secretAt ''a'' 1]\<rparr> [Inr ''Yes''] None
             (Some (ErrorString ''permission denied'')))
          \<lparr>Secrets = [secretAt ''a'' 1]\<rparr> '''' emptySys)) = 1"
  by (simp add: runInteractiveImport_def interactiveInit_def interactiveBody_def promptBlock_def
      writeBlock_def promptImport_def SecretExists_def WriteSecret_def stubExt_def secretAt_def
      emptySys_def emit_def print_def Let_def)

text \<open>
  The parallel half of C1 holds on the code: under every schedule, a parallel run
  that returns has returned an error exactly when its counter \<open>failed\<close> is positive.
\<close>

lemma runParallelImport_error_iff_failed:
  assumes "runParallelImport X fl sched export pp s = Some (r, st)"
  shows "r \<noteq> None \<longleftrightarrow> 0 < failed_p st"
proof -
  have step: "pstep X fl pp g a = Some b \<Longrightarrow> returned a = None \<and>
      (returned b = None \<or> (\<exists>e. returned b = Some e \<and> (e \<noteq> None \<longleftrightarrow> 0 < failed_p b)))" for g a b
  proof -
    assume p: "pstep X fl pp g a = Some b"
    then have n: "returned a = None" by (auto simp: pstep_def split: if_splits)
    show ?thesis
    proof (cases g)
      case Sender
      with p n have "senderStep a = Some b" by (simp add: pstep_def)
      then have "returned b = returned a"
        by (cases "unsent a") (auto simp: senderStep_def split: if_splits)
      with n show ?thesis by simp
    next
      case (Worker i)
      with p n have w: "workerStep X fl pp i a = Some b" by (simp add: pstep_def)
      from workerStep_frame [OF w] n show ?thesis by simp
    next
      case Closer
      with p n have "closerStep a = Some b" by (simp add: pstep_def)
      then have "returned b = returned a" by (auto simp: closerStep_def split: if_splits)
      with n show ?thesis by simp
    next
      case Main
      with p n have m: "mainStep a = Some b" by (simp add: pstep_def)
      show ?thesis
      proof (cases "results a")
        case Nil
        with m n show ?thesis by (auto simp: mainStep_def split: if_splits)
      next
        case (Cons x xs)
        with m have "b = countResult x (a\<lparr>results := xs\<rparr>)" by (simp add: mainStep_def)
        then have "returned b = returned a" by (simp add: countResult_fields)
        with n show ?thesis by simp
      qed
    qed
  qed
  have run: "pexec X fl pp gs a = Some b \<Longrightarrow> returned a = None \<Longrightarrow>
      returned b = None \<or> (\<exists>e. returned b = Some e \<and> (e \<noteq> None \<longleftrightarrow> 0 < failed_p b))" for gs a b
  proof (induction gs arbitrary: a)
    case Nil
    then show ?case by simp
  next
    case (Cons g gs)
    from Cons.prems(1) obtain a1 where s: "pstep X fl pp g a = Some a1"
      and r: "pexec X fl pp gs a1 = Some b"
      by (auto split: option.splits)
    show ?case
    proof (cases "returned a1")
      case None
      from Cons.IH [OF r None] show ?thesis .
    next
      case (Some e)
      then have "pstep X fl pp g' a1 = None" for g' by (simp add: pstep_def)
      with r have "b = a1" by (cases gs) auto
      with step [OF s] Some show ?thesis by auto
    qed
  qed
  from assms have e: "pexec X fl pp sched (parallelInit fl export s) = Some st"
    and rr: "returned st = Some r"
    by (auto simp: runParallelImport_def split: option.splits)
  from run [OF e] rr show ?thesis by (auto simp: parallelInit_def)
qed

text \<open>
  Claim C2, as stated, at a concrete input: four secrets, the answers Yes, No and
  Yes-to-all on the first three prompts, every write succeeding. The run imports three
  secrets, not two: the secret answered with Yes-to-all is written as well.
\<close>

theorem yes_no_yesall_counterexample:
  "imported (snd (runInteractiveImport
      (stubExt \<lparr>Secrets = [secretAt ''a'' 1, secretAt ''b'' 2, secretAt ''c'' 3, secretAt ''d'' 4]\<rparr>
         [Inr ''Yes'', Inr ''No'', Inr ''Yes to all remaining''] None None)
      \<lparr>Secrets = [secretAt ''a'' 1, secretAt ''b'' 2, secretAt ''c'' 3, secretAt ''d'' 4]\<rparr>
      '''' emptySys)) \<noteq> 2"
  by (simp add: runInteractiveImport_def interactiveInit_def interactiveBody_def promptBlock_def
      writeBlock_def promptImport_def SecretExists_def WriteSecret_def stubExt_def secretAt_def
      emptySys_def emit_def print_def Let_def)

text \<open>
  Claim C2, amended: for any four secrets and any store whose writes all succeed, with
  the answers Yes, No and Yes-to-all on the first three prompts, the run returns nil
  with \<open>imported = 3\<close>, \<open>skipped = 1\<close> and \<open>failed = 0\<close>.
\<close>

theorem yes_no_yesall_summary:
  assumes "AskOne X 0 = Inr ''Yes''" "AskOne X 1 = Inr ''No''" "AskOne X 2 = Inr ''Yes to all remaining''"
    and ok: "\<forall>p d w. fst (kvPut X p d w) = None" and "asked s = 0"
  shows "\<exists>st. runInteractiveImport X \<lparr>Secrets = [s1, s2, s3, s4]\<rparr> pp s = (None, st) \<and>
           imported st = 3 \<and> skipped st = 1 \<and> failed st = 0"
proof -
  define st0 where "st0 = interactiveInit s"
  have st0: "imported st0 = 0" "skipped st0 = 0" "failed st0 = 0" "\<not> confirmAll st0" "\<not> skipAll st0"
    "asked (isys st0) = 0"
    using assms(5) by (simp_all add: st0_def interactiveInit_def print_def emit_def)
  obtain c1 st1 where b1: "interactiveBody X pp 4 0 s1 st0 = (c1, st1)"
    by (cases "interactiveBody X pp 4 0 s1 st0")
  from interactiveBody_answer [OF b1 ok, of "''Yes''"] st0 assms(1)
  have st1: "c1 = Continue" "imported st1 = 1" "skipped st1 = 0" "failed st1 = 0"
    "\<not> confirmAll st1" "\<not> skipAll st1" "asked (isys st1) = 1"
    by simp_all
  obtain c2 st2 where b2: "interactiveBody X pp 4 1 s2 st1 = (c2, st2)"
    by (cases "interactiveBody X pp 4 1 s2 st1")
  from interactiveBody_answer [OF b2 ok, of "''No''"] st1 assms(2)
  have st2: "c2 = Continue" "imported st2 = 1" "skipped st2 = 1" "failed st2 = 0"
    "\<not> confirmAll st2" "\<not> skipAll st2" "asked (isys st2) = 2"
    by simp_all
  obtain c3 st3 where b3: "interactiveBody X pp 4 2 s3 st2 = (c3, st3)"
    by (cases "interactiveBody X pp 4 2 s3 st2")
  from interactiveBody_answer [OF b3 ok, of "''Yes to all remaining''"] st2 assms(3)
  have st3: "c3 = Continue" "imported st3 = 2" "skipped st3 = 1" "failed st3 = 0"
    "confirmAll st3" "\<not> skipAll st3"
    by simp_all
  obtain c4 st4 where b4: "interactiveBody X pp 4 3 s4 st3 = (c4, st4)"
    by (cases "interactiveBody X pp 4 3 s4 st3")
  from interactiveBody_confirmed [OF b4 ok] st3
  have st4: "c4 = Continue" "imported st4 = 3" "skipped st4 = 1" "failed st4 = 0"
    by simp_all
  show ?thesis
    using b1 b2 b3 b4 st1(1) st2(1) st3(1) st4
    by (simp add: runInteractiveImport_def st0_def [symmetric])
qed

theorem yes_no_yesall_summary_witness:
  "\<exists>st. runInteractiveImport
      (stubExt \<lparr>Secrets = []\<rparr> [Inr ''Yes'', Inr ''No'', Inr ''Yes to all remaining''] None None)
      \<lparr>Secrets = [secretAt ''a'' 1, secretAt ''b'' 2, secretAt ''c'' 3, secretAt ''d'' 4]\<rparr>
      ''aws/'' emptySys = (None, st) \<and> imported st = 3 \<and> skipped st = 1 \<and> failed st = 0"
proof -
  let ?X = "stubExt \<lparr>Secrets = []\<rparr> [Inr ''Yes'', Inr ''No'', Inr ''Yes to all remaining''] None None"
  have a: "AskOne ?X 0 = Inr ''Yes''" "AskOne ?X 1 = Inr ''No''"
    "AskOne ?X 2 = Inr ''Yes to all remaining''"
    by (simp_all add: stubExt_def)
  have ok: "\<forall>p d w. fst (kvPut ?X p d w) = None" by (simp add: stubExt_def)
  have z: "asked emptySys = 0" by (simp add: emptySys_def)
  show ?thesis
    using yes_no_yesall_summary [OF a ok z] .
qed

text \<open>
  Claim C3, as stated, at the prefix \<open>//\<close>: normalising it gives \<open>/\<close>, and normalising
  that gives the empty prefix, so normalisation is not idempotent there.
\<close>

theorem normalize_idempotent_counterexample:
  "normalizePathPrefix (normalizePathPrefix ''//'') \<noteq> normalizePathPrefix ''//''"
  by (simp add: normalizePathPrefix_def HasSuffix_slash TrimPrefix_def)

text \<open>
  Claim C3, amended: \<open>normalizePathPrefix (normalizePathPrefix p) = normalizePathPrefix p\<close>
  holds exactly for the prefixes \<open>p\<close> that do not begin with \<open>//\<close> (only one leading
  slash is removed), and both the empty prefix and \<open>/\<close> normalise to the empty prefix.
\<close>

theorem normalize_idempotent:
  "(normalizePathPrefix (normalizePathPrefix p) = normalizePathPrefix p \<longleftrightarrow> \<not> prefix ''//'' p) \<and>
   normalizePathPrefix '''' = '''' \<and> normalizePathPrefix ''/'' = ''''"
proof (intro conjI iffI)
  assume "\<not> prefix ''//'' p"
  then show "normalizePathPrefix (normalizePathPrefix p) = normalizePathPrefix p"
    by (rule normalize_idem)
next
  assume fixed: "normalizePathPrefix (normalizePathPrefix p) = normalizePathPrefix p"
  show "\<not> prefix ''//'' p"
  proof
    assume "prefix ''//'' p"
    then have "prefix ''/'' (normalizePathPrefix p)" by (rule normalize_leading)
    then have "normalizePathPrefix (normalizePathPrefix p) \<noteq> normalizePathPrefix p"
      by (rule normalize_not_fixed)
    with fixed show False by simp
  qed
next
  show "normalizePathPrefix '''' = ''''" by (simp add: normalizePathPrefix_def)
next
  show "normalizePathPrefix ''/'' = ''''" by (simp add: normalizePathPrefix_def)
qed

theorem normalize_idempotent_witness:
  "\<not> prefix ''//'' ''/aws/prod'' \<and>
   normalizePathPrefix (normalizePathPrefix ''/aws/prod'') = normalizePathPrefix ''/aws/prod'' \<and>
   normalizePathPrefix ''/aws/prod'' = ''aws/prod/''"
  using normalize_idempotent [of "''/aws/prod''"]
  by (simp add: normalizePathPrefix_def HasSuffix_slash TrimPrefix_def)

text \<open>
  Claim C4, as stated, at the prefix \<open>//a//\<close>: it is neither empty nor \<open>/\<close>, and its
  normal form \<open>/a//\<close> has a leading slash and two trailing slashes.
\<close>

theorem normalize_shape_counterexample:
  "''//a//'' \<noteq> '''' \<and> ''//a//'' \<noteq> ''/'' \<and>
   prefix ''/'' (normalizePathPrefix ''//a//'') \<and> suffix ''//'' (normalizePathPrefix ''//a//'')"
  by (simp add: normalizePathPrefix_def HasSuffix_slash TrimPrefix_def suffix_to_prefix)

text \<open>
  Claim C4, amended: for every prefix other than the empty one and \<open>/\<close>, the normal
  form ends with a slash; it has a leading slash exactly when the prefix begins with
  \<open>//\<close>; and it ends with exactly one slash whenever the prefix does not end with
  \<open>//\<close>.
\<close>

theorem normalize_shape:
  assumes "p \<noteq> ''''" and "p \<noteq> ''/''"
  shows "suffix ''/'' (normalizePathPrefix p) \<and>
         (prefix ''/'' (normalizePathPrefix p) \<longleftrightarrow> prefix ''//'' p) \<and>
         (\<not> suffix ''//'' p \<longrightarrow> \<not> suffix ''//'' (normalizePathPrefix p))"
proof (intro conjI)
  from normalize_nonempty [OF assms] have "HasSuffix (normalizePathPrefix p) ''/''"
    by (simp add: HasSuffix_slash)
  then show "suffix ''/'' (normalizePathPrefix p)" by (simp add: HasSuffix_def)
next
  show "prefix ''/'' (normalizePathPrefix p) \<longleftrightarrow> prefix ''//'' p"
  proof
    assume l: "prefix ''/'' (normalizePathPrefix p)"
    show "prefix ''//'' p"
    proof (rule ccontr)
      assume "\<not> prefix ''//'' p"
      from normalize_no_leading [OF assms this] l show False by (simp add: prefix_slash)
    qed
  next
    assume "prefix ''//'' p"
    then show "prefix ''/'' (normalizePathPrefix p)" by (rule normalize_leading)
  qed
next
  show "\<not> suffix ''//'' p \<longrightarrow> \<not> suffix ''//'' (normalizePathPrefix p)"
    using normalize_one_trailing by blast
qed

theorem normalize_shape_witness:
  "''/aws'' \<noteq> '''' \<and> ''/aws'' \<noteq> ''/'' \<and> \<not> prefix ''//'' ''/aws'' \<and> \<not> suffix ''//'' ''/aws'' \<and>
   suffix ''/'' (normalizePathPrefix ''/aws'') \<and> \<not> prefix ''/'' (normalizePathPrefix ''/aws'') \<and>
   \<not> suffix ''//'' (normalizePathPrefix ''/aws'')"
proof -
  have h: "''/aws'' \<noteq> ''''" "''/aws'' \<noteq> ''/''" by simp_all
  have n: "\<not> prefix ''//'' ''/aws''" "\<not> suffix ''//'' ''/aws''"
    by (simp_all add: suffix_to_prefix)
  from normalize_shape [OF h] n h show ?thesis by simp
qed

text \<open>
  Claim C5: \<open>importSecret\<close> with skip-existing on and overwrite-all off. The existence
  check on the destination path comes first. If it returns an error, the result is a
  failure whose error wraps that error, and the state is the one after the check: no
  write has been called. If it returns true, the result is skipped and successful, again
  without a write. If it returns false, \<open>WriteSecret\<close> is called on the destination
  path with the data of the secret; its error, if any, is the error of a failed result,
  and without an error the result is an imported one. The last two lines are the two
  steps of a worker on their own: in a parallel run calls of other workers can come
  between them, and whatever the state \<open>t\<close> at the write, the result is decided by what
  that call of \<open>WriteSecret\<close> returns.
\<close>

theorem importSecret_skip_existing:
  assumes "importSkipExisting fl" and "\<not> importOverwriteAll fl"
    and "SecretExists X (pp @ Path secret) s = ((ex, err), s1)"
    and "WriteSecret X (pp @ Path secret) (Data secret) s1 = (werr, s2)"
  shows "trace s1 = trace s @ [CallSecretExists (pp @ Path secret)] \<and>
         trace s2 = trace s1 @ [CallWriteSecret (pp @ Path secret) (Data secret)] \<and>
         (\<forall>e. err = Some e \<longrightarrow>
           importSecret X fl secret pp s =
             (\<lparr>ResultPath = pp @ Path secret, Success = False, Skipped = False,
               Err = Some (Errorf_w ''failed to check existence: '' e)\<rparr>, s1)) \<and>
         (err = None \<and> ex \<longrightarrow>
           importSecret X fl secret pp s =
             (\<lparr>ResultPath = pp @ Path secret, Success = True, Skipped = True, Err = None\<rparr>, s1)) \<and>
         (\<forall>e. err = None \<and> \<not> ex \<and> werr = Some e \<longrightarrow>
           importSecret X fl secret pp s =
             (\<lparr>ResultPath = pp @ Path secret, Success = False, Skipped = False, Err = Some e\<rparr>, s2)) \<and>
         (err = None \<and> \<not> ex \<and> werr = None \<longrightarrow>
           importSecret X fl secret pp s =
             (\<lparr>ResultPath = pp @ Path secret, Success = True, Skipped = False, Err = None\<rparr>, s2)) \<and>
         importSecretCheck X fl secret pp s =
           (case err of
              Some e \<Rightarrow>
                Some \<lparr>ResultPath = pp @ Path secret, Success = False, Skipped = False,
                      Err = Some (Errorf_w ''failed to check existence: '' e)\<rparr>
            | None \<Rightarrow>
                if ex
                then Some \<lparr>ResultPath = pp @ Path secret, Success = True, Skipped = True, Err = None\<rparr>
                else None, s1) \<and>
         (\<forall>t e t2. WriteSecret X (pp @ Path secret) (Data secret) t = (e, t2) \<longrightarrow>
            importSecretWrite X secret pp t =
              (\<lparr>ResultPath = pp @ Path secret, Success = (e = None), Skipped = False, Err = e\<rparr>, t2))"
proof (intro conjI)
  show "trace s1 = trace s @ [CallSecretExists (pp @ Path secret)]"
    using SecretExists_sys [of X "pp @ Path secret" s] assms(3) by simp
  show "trace s2 = trace s1 @ [CallWriteSecret (pp @ Path secret) (Data secret)]"
    using WriteSecret_sys [of X "pp @ Path secret" "Data secret" s1] assms(4) by simp
  show "\<forall>e. err = Some e \<longrightarrow>
           importSecret X fl secret pp s =
             (\<lparr>ResultPath = pp @ Path secret, Success = False, Skipped = False,
               Err = Some (Errorf_w ''failed to check existence: '' e)\<rparr>, s1)"
    using assms(1,2,3) by (simp add: importSecret_def importSecretCheck_def Let_def)
  show "err = None \<and> ex \<longrightarrow>
           importSecret X fl secret pp s =
             (\<lparr>ResultPath = pp @ Path secret, Success = True, Skipped = True, Err = None\<rparr>, s1)"
    using assms(1,2,3) by (simp add: importSecret_def importSecretCheck_def Let_def)
  show "\<forall>e. err = None \<and> \<not> ex \<and> werr = Some e \<longrightarrow>
           importSecret X fl secret pp s =
             (\<lparr>ResultPath = pp @ Path secret, Success = False, Skipped = False, Err = Some e\<rparr>, s2)"
    using assms
    by (simp add: importSecret_def importSecretCheck_def importSecretWrite_def Let_def)
  show "err = None \<and> \<not> ex \<and> werr = None \<longrightarrow>
           importSecret X fl secret pp s =
             (\<lparr>ResultPath = pp @ Path secret, Success = True, Skipped = False, Err = None\<rparr>, s2)"
    using assms
    by (simp add: importSecret_def importSecretCheck_def importSecretWrite_def Let_def)
  show "importSecretCheck X fl secret pp s =
           (case err of
              Some e \<Rightarrow>
                Some \<lparr>ResultPath = pp @ Path secret, Success = False, Skipped = False,
                      Err = Some (Errorf_w ''failed to check existence: '' e)\<rparr>
            | None \<Rightarrow>
                if ex
                then Some \<lparr>ResultPath = pp @ Path secret, Success = True, Skipped = True, Err = None\<rparr>
                else None, s1)"
    using assms(1,2,3) by (cases err) (simp_all add: importSecretCheck_def Let_def)
  show "\<forall>t e t2. WriteSecret X (pp @ Path secret) (Data secret) t = (e, t2) \<longrightarrow>
            importSecretWrite X secret pp t =
              (\<lparr>ResultPath = pp @ Path secret, Success = (e = None), Skipped = False, Err = e\<rparr>, t2)"
    by (auto simp: importSecretWrite_def Let_def split: option.splits)
qed

text \<open>
  The three outcomes of the existence check on the stand-in store: an empty store (the
  secret is written), a store that holds the destination path (skipped, no write), and
  a store whose reads fail (failed, no write).
\<close>

theorem importSecret_skip_existing_witness:
  "importSecret (stubExt \<lparr>Secrets = []\<rparr> [] None None) defaultFlags (secretAt ''a'' 1) ''p/'' emptySys =
     (\<lparr>ResultPath = ''p/a'', Success = True, Skipped = False, Err = None\<rparr>,
      \<lparr>world = [(''p/a'', 1)], trace = [CallSecretExists ''p/a'', CallWriteSecret ''p/a'' 1],
       asked = 0\<rparr>) \<and>
   importSecret (stubExt \<lparr>Secrets = []\<rparr> [] None None) defaultFlags (secretAt ''a'' 1) ''p/''
       (emptySys\<lparr>world := [(''p/a'', 7)]\<rparr>) =
     (\<lparr>ResultPath = ''p/a'', Success = True, Skipped = True, Err = None\<rparr>,
      \<lparr>world = [(''p/a'', 7)], trace = [CallSecretExists ''p/a''], asked = 0\<rparr>) \<and>
   importSecret (stubExt \<lparr>Secrets = []\<rparr> [] (Some (ErrorString ''connection refused'')) None)
       defaultFlags (secretAt ''a'' 1) ''p/'' emptySys =
     (\<lparr>ResultPath = ''p/a'', Success = False, Skipped = False,
       Err = Some (Errorf_w ''failed to check existence: ''
                (Errorf_w ''failed to check secret at p/a: '' (ErrorString ''connection refused'')))\<rparr>,
      \<lparr>world = [], trace = [CallSecretExists ''p/a''], asked = 0\<rparr>)"
proof -
  let ?X = "stubExt \<lparr>Secrets = []\<rparr> [] None None"
  let ?D = "stubExt \<lparr>Secrets = []\<rparr> [] (Some (ErrorString ''connection refused'')) None"
  let ?sec = "secretAt ''a'' 1"
  let ?s = "emptySys\<lparr>world := [(''p/a'', 7)]\<rparr>"
  have fl: "importSkipExisting defaultFlags" "\<not> importOverwriteAll defaultFlags"
    by (simp_all add: defaultFlags_def)
  have e1: "SecretExists ?X (''p/'' @ Path ?sec) emptySys =
      ((False, None), \<lparr>world = [], trace = [CallSecretExists ''p/a''], asked = 0\<rparr>)"
    by (simp add: SecretExists_def stubExt_def secretAt_def emptySys_def emit_def)
  have w1: "WriteSecret ?X (''p/'' @ Path ?sec) (Data ?sec)
        \<lparr>world = [], trace = [CallSecretExists ''p/a''], asked = 0\<rparr> =
      (None, \<lparr>world = [(''p/a'', 1)], trace = [CallSecretExists ''p/a'', CallWriteSecret ''p/a'' 1],
              asked = 0\<rparr>)"
    by (simp add: WriteSecret_def stubExt_def secretAt_def emit_def)
  have e2: "SecretExists ?X (''p/'' @ Path ?sec) ?s =
      ((True, None), \<lparr>world = [(''p/a'', 7)], trace = [CallSecretExists ''p/a''], asked = 0\<rparr>)"
    by (simp add: SecretExists_def stubExt_def secretAt_def emptySys_def emit_def)
  have w2: "WriteSecret ?X (''p/'' @ Path ?sec) (Data ?sec)
        \<lparr>world = [(''p/a'', 7)], trace = [CallSecretExists ''p/a''], asked = 0\<rparr> =
      (None, \<lparr>world = [(''p/a'', 1), (''p/a'', 7)],
              trace = [CallSecretExists ''p/a'', CallWriteSecret ''p/a'' 1], asked = 0\<rparr>)"
    by (simp add: WriteSecret_def stubExt_def secretAt_def emit_def)
  have e3: "SecretExists ?D (''p/'' @ Path ?sec) emptySys =
      ((False, Some (Errorf_w ''failed to check secret at p/a: '' (ErrorString ''connection refused''))),
       \<lparr>world = [], trace = [CallSecretExists ''p/a''], asked = 0\<rparr>)"
    by (simp add: SecretExists_def stubExt_def secretAt_def emptySys_def emit_def)
  have w3: "WriteSecret ?D (''p/'' @ Path ?sec) (Data ?sec)
        \<lparr>world = [], trace = [CallSecretExists ''p/a''], asked = 0\<rparr> =
      (None, \<lparr>world = [(''p/a'', 1)], trace = [CallSecretExists ''p/a'', CallWriteSecret ''p/a'' 1],
              asked = 0\<rparr>)"
    by (simp add: WriteSecret_def stubExt_def secretAt_def emit_def)
  from importSecret_skip_existing [OF fl e1 w1] importSecret_skip_existing [OF fl e2 w2]
    importSecret_skip_existing [OF fl e3 w3]
  show ?thesis by (simp add: secretAt_def)
qed

text \<open>
  The contract of the parallel mode asks for at least one worker. The flag itself is
  not checked by the code: with \<open>--parallelism 0\<close> no worker is started, the goroutine
  that waits for the workers closes the channel of results at once, and the function
  returns nil with the three counters at zero. This is why the statement on the
  parallel run below assumes \<open>1 \<le> importParallelism\<close>.
\<close>

lemma parallel_without_workers:
  "map_option fst
     (runParallelImport (stubExt \<lparr>Secrets = []\<rparr> [] None None)
        (defaultFlags\<lparr>importParallelism := 0\<rparr>) [Closer, Main]
        \<lparr>Secrets = [secretAt ''a'' 1]\<rparr> [] emptySys) = Some None \<and>
   map_option (totals_p \<circ> snd)
     (runParallelImport (stubExt \<lparr>Secrets = []\<rparr> [] None None)
        (defaultFlags\<lparr>importParallelism := 0\<rparr>) [Closer, Main]
        \<lparr>Secrets = [secretAt ''a'' 1]\<rparr> [] emptySys) = Some (0, 0, 0)"
  by (simp add: runParallelImport_def parallelInit_def pstep_def closerStep_def mainStep_def
      totals_p_def defaultFlags_def print_def emit_def)

text \<open>
  Claim C6: the counters start at zero. Interactive mode: an iteration of the loop that
  goes on to the next secret raises exactly one of the three counters by one, and one
  that leaves the function (Abort, or a failed prompt) changes none; so over any part
  of the loop no counter decreases and the counters rise by the number \<open>k\<close> of secrets
  processed, where \<open>k\<close> is the number of secrets when the loop runs to its end and is
  smaller when the loop is left early. At the return of \<open>runInteractiveImport\<close> the
  counters are those the loop ends with: they are not negative and add up to at most
  the stream length \<open>N\<close>, to exactly \<open>N\<close> when the loop has run to its end, and to
  fewer than \<open>N\<close> after an Abort or a failed prompt. Parallel mode: the step that
  receives a result raises exactly one counter by one and no other step changes a
  counter; and, with at least one worker as the contract of the parallel mode requires,
  at the return of \<open>runParallelImport\<close> the counters are not negative and add up to the
  stream length \<open>N\<close>, under every schedule.
\<close>

theorem counters_account:
  "totals (interactiveInit s) = (0, 0, 0) \<and>
   (\<forall>c st'. interactiveBody X pp tot i sec st = (c, st') \<longrightarrow>
      (c = Continue \<longrightarrow> incOne (totals st) (totals st')) \<and>
      (c \<noteq> Continue \<longrightarrow> totals st' = totals st)) \<and>
   (\<forall>c st'. interactiveLoop X pp tot i secrets st = (c, st') \<longrightarrow>
      imported st \<le> imported st' \<and> skipped st \<le> skipped st' \<and> failed st \<le> failed st' \<and>
      (\<exists>k \<le> length secrets.
         imported st' + skipped st' + failed st' = imported st + skipped st + failed st + int k \<and>
         (c = Continue \<longrightarrow> k = length secrets) \<and>
         (c \<noteq> Continue \<longrightarrow> k < length secrets))) \<and>
   (\<forall>r st'. runInteractiveImport X export pp s = (r, st') \<longrightarrow>
      0 \<le> imported st' \<and> 0 \<le> skipped st' \<and> 0 \<le> failed st' \<and>
      imported st' + skipped st' + failed st' \<le> int (length (Secrets export))) \<and>
   (\<forall>c st1. interactiveLoop X pp (int (length (Secrets export))) 0 (Secrets export)
               (interactiveInit s) = (c, st1) \<longrightarrow>
      totals (snd (runInteractiveImport X export pp s)) = totals st1 \<and>
      (c = Continue \<longrightarrow>
         imported st1 + skipped st1 + failed st1 = int (length (Secrets export))) \<and>
      (c \<noteq> Continue \<longrightarrow>
         imported st1 + skipped st1 + failed st1 < int (length (Secrets export)))) \<and>
   totals_p (parallelInit fl export s) = (0, 0, 0) \<and>
   (\<forall>pst'. pstep X fl pp g pst = Some pst' \<longrightarrow>
      (g = Main \<and> results pst \<noteq> [] \<longrightarrow> incOne (totals_p pst) (totals_p pst')) \<and>
      (\<not> (g = Main \<and> results pst \<noteq> []) \<longrightarrow> totals_p pst' = totals_p pst)) \<and>
   (\<forall>r pst'. 1 \<le> importParallelism fl \<and>
        runParallelImport X fl sched export pp s = Some (r, pst') \<longrightarrow>
      0 \<le> imported_p pst' \<and> 0 \<le> skipped_p pst' \<and> 0 \<le> failed_p pst' \<and>
      imported_p pst' + skipped_p pst' + failed_p pst' = int (length (Secrets export)))"
proof (intro conjI allI impI)
  show "totals (interactiveInit s) = (0, 0, 0)"
    by (simp add: totals_def interactiveInit_def)
next
  fix c st'
  assume b: "interactiveBody X pp tot i sec st = (c, st')"
  from interactiveBody_counts [OF b]
  have "(c = Continue \<longrightarrow> incOne (totals st) (totals st')) \<and>
        (c \<noteq> Continue \<longrightarrow> totals st' = totals st)"
    by (simp add: totals_def)
  then show "c = Continue \<Longrightarrow> incOne (totals st) (totals st')"
    and "c \<noteq> Continue \<Longrightarrow> totals st' = totals st"
    by simp_all
next
  fix c st'
  assume l: "interactiveLoop X pp tot i secrets st = (c, st')"
  note n = interactiveLoop_counts [OF l]
  from n show "imported st \<le> imported st'" by simp
  from n show "skipped st \<le> skipped st'" by simp
  from n show "failed st \<le> failed st'" by simp
  from n obtain k where k: "k \<le> length secrets"
    "imported st' + skipped st' + failed st' = imported st + skipped st + failed st + int k"
    "c = Continue \<longrightarrow> k = length secrets"
    by blast
  have "c \<noteq> Continue \<longrightarrow> k < length secrets"
  proof
    assume "c \<noteq> Continue"
    then obtain r where "c = Return r" by (cases c) auto
    with l have "interactiveLoop X pp tot i secrets st = (Return r, st')" by simp
    from interactiveLoop_early_return [OF this] k(2) show "k < length secrets" by simp
  qed
  with k show "\<exists>k \<le> length secrets.
         imported st' + skipped st' + failed st' = imported st + skipped st + failed st + int k \<and>
         (c = Continue \<longrightarrow> k = length secrets) \<and>
         (c \<noteq> Continue \<longrightarrow> k < length secrets)"
    by blast
next
  fix r st'
  assume run: "runInteractiveImport X export pp s = (r, st')"
  obtain c st1 where l: "interactiveLoop X pp (int (length (Secrets export))) 0 (Secrets export)
      (interactiveInit s) = (c, st1)"
    by (cases "interactiveLoop X pp (int (length (Secrets export))) 0 (Secrets export)
      (interactiveInit s)")
  with run have same: "imported st' = imported st1" "skipped st' = skipped st1" "failed st' = failed st1"
    by (cases c; auto simp: runInteractiveImport_def)+
  from interactiveLoop_counts [OF l]
  have "0 \<le> imported st1 \<and> 0 \<le> skipped st1 \<and> 0 \<le> failed st1 \<and>
      imported st1 + skipped st1 + failed st1 \<le> int (length (Secrets export))"
    by (auto simp: interactiveInit_def)
  with same show "0 \<le> imported st'" "0 \<le> skipped st'" "0 \<le> failed st'"
    "imported st' + skipped st' + failed st' \<le> int (length (Secrets export))"
    by simp_all
next
  fix c st1
  assume l: "interactiveLoop X pp (int (length (Secrets export))) 0 (Secrets export)
      (interactiveInit s) = (c, st1)"
  show "totals (snd (runInteractiveImport X export pp s)) = totals st1"
    using l by (cases c) (simp_all add: runInteractiveImport_def totals_def)
  show "imported st1 + skipped st1 + failed st1 = int (length (Secrets export))"
    if "c = Continue"
    using interactiveLoop_counts [OF l] that by (auto simp: interactiveInit_def)
  show "imported st1 + skipped st1 + failed st1 < int (length (Secrets export))"
    if "c \<noteq> Continue"
  proof -
    from that obtain r where "c = Return r" by (cases c) auto
    with l have "interactiveLoop X pp (int (length (Secrets export))) 0 (Secrets export)
      (interactiveInit s) = (Return r, st1)" by simp
    from interactiveLoop_early_return [OF this] show ?thesis
      by (simp add: interactiveInit_def)
  qed
next
  show "totals_p (parallelInit fl export s) = (0, 0, 0)"
    by (simp add: totals_p_def parallelInit_def)
next
  fix pst'
  assume p: "pstep X fl pp g pst = Some pst'"
  from pstep_totals [OF p]
  show "g = Main \<and> results pst \<noteq> [] \<Longrightarrow> incOne (totals_p pst) (totals_p pst')"
    and "\<not> (g = Main \<and> results pst \<noteq> []) \<Longrightarrow> totals_p pst' = totals_p pst"
    by (simp_all split: if_splits)
next
  fix r pst'
  assume a: "1 \<le> importParallelism fl \<and> runParallelImport X fl sched export pp s = Some (r, pst')"
  then have w: "1 \<le> importParallelism fl"
    and run: "runParallelImport X fl sched export pp s = Some (r, pst')"
    by simp_all
  from runParallelImport_totals [OF w run]
  show "0 \<le> imported_p pst'" "0 \<le> skipped_p pst'" "0 \<le> failed_p pst'"
    "imported_p pst' + skipped_p pst' + failed_p pst' = int (length (Secrets export))"
    by simp_all
qed

text \<open>
  An interactive run to the end (Yes, then No), an interactive run left by Abort at the
  second of three secrets, and a parallel run with one worker, on the stand-in store.
\<close>

theorem counters_account_witness:
  "(\<exists>st'. runInteractiveImport (stubExt \<lparr>Secrets = []\<rparr> [Inr ''Yes'', Inr ''No''] None None)
        \<lparr>Secrets = [secretAt ''a'' 1, secretAt ''b'' 2]\<rparr> '''' emptySys = (None, st') \<and>
      totals st' = (1, 1, 0) \<and>
      imported st' + skipped st' + failed st' \<le> 2) \<and>
   (\<exists>st1. interactiveLoop (stubExt \<lparr>Secrets = []\<rparr> [Inr ''Yes'', Inr ''Abort import''] None None)
        '''' 3 0 [secretAt ''a'' 1, secretAt ''b'' 2, secretAt ''c'' 3] (interactiveInit emptySys) =
        (Return None, st1) \<and>
      totals st1 = (1, 0, 0) \<and>
      imported st1 + skipped st1 + failed st1 < 3) \<and>
   (\<exists>pst'. runParallelImport (stubExt \<lparr>Secrets = []\<rparr> [] None None)
        (defaultFlags\<lparr>importParallelism := 1\<rparr>)
        [Sender, Sender, Worker 0, Worker 0, Worker 0, Worker 0, Worker 0, Closer, Main, Main]
        \<lparr>Secrets = [secretAt ''a'' 1]\<rparr> '''' emptySys = Some (None, pst') \<and>
      totals_p pst' = (1, 0, 0) \<and>
      imported_p pst' + skipped_p pst' + failed_p pst' = 1)"
proof -
  let ?X = "stubExt \<lparr>Secrets = []\<rparr> [Inr ''Yes'', Inr ''No''] None None"
  let ?A = "stubExt \<lparr>Secrets = []\<rparr> [Inr ''Yes'', Inr ''Abort import''] None None"
  let ?P = "stubExt \<lparr>Secrets = []\<rparr> [] None None"
  let ?fl = "defaultFlags\<lparr>importParallelism := 1\<rparr>"
  let ?sched = "[Sender, Sender, Worker 0, Worker 0, Worker 0, Worker 0, Worker 0, Closer, Main, Main]"
  let ?two = "\<lparr>Secrets = [secretAt ''a'' 1, secretAt ''b'' 2]\<rparr>"
  let ?three = "\<lparr>Secrets = [secretAt ''a'' 1, secretAt ''b'' 2, secretAt ''c'' 3]\<rparr>"
  let ?one = "\<lparr>Secrets = [secretAt ''a'' 1]\<rparr>"
  have "\<exists>st'. runInteractiveImport ?X ?two '''' emptySys = (None, st') \<and> totals st' = (1, 1, 0)"
    by (simp add: runInteractiveImport_def interactiveInit_def interactiveBody_def promptBlock_def
      writeBlock_def promptImport_def SecretExists_def WriteSecret_def stubExt_def secretAt_def
      emptySys_def emit_def print_def Let_def totals_def)
  then obtain st' where ir: "runInteractiveImport ?X ?two '''' emptySys = (None, st')"
    and it: "totals st' = (1, 1, 0)"
    by blast
  from counters_account [where X = ?X and export = ?two and pp = "''''" and s = emptySys] ir
  have ib: "imported st' + skipped st' + failed st' \<le> 2" by simp
  have "\<exists>st1. interactiveLoop ?A '''' (int (length (Secrets ?three))) 0 (Secrets ?three)
      (interactiveInit emptySys) = (Return None, st1) \<and> totals st1 = (1, 0, 0)"
    by (simp add: interactiveInit_def interactiveBody_def promptBlock_def
      writeBlock_def promptImport_def SecretExists_def WriteSecret_def stubExt_def secretAt_def
      emptySys_def emit_def print_def Let_def totals_def)
  then obtain st1 where ar: "interactiveLoop ?A '''' (int (length (Secrets ?three))) 0
      (Secrets ?three) (interactiveInit emptySys) = (Return None, st1)"
    and at: "totals st1 = (1, 0, 0)"
    by blast
  from counters_account [where X = ?A and export = ?three and pp = "''''" and s = emptySys] ar
  have ab: "imported st1 + skipped st1 + failed st1 < 3" by simp
  from ar have ar': "interactiveLoop ?A '''' 3 0
      [secretAt ''a'' 1, secretAt ''b'' 2, secretAt ''c'' 3] (interactiveInit emptySys) =
      (Return None, st1)"
    by simp
  have w: "1 \<le> importParallelism ?fl" by (simp add: defaultFlags_def)
  have "\<exists>pst'. runParallelImport ?P ?fl ?sched ?one '''' emptySys = Some (None, pst') \<and>
      totals_p pst' = (1, 0, 0)"
    by (simp add: runParallelImport_def parallelInit_def pstep_def senderStep_def
        workerStep_def closerStep_def mainStep_def countResult_def importSecretCheck_def
        importSecretWrite_def SecretExists_def WriteSecret_def
        stubExt_def secretAt_def emptySys_def defaultFlags_def emit_def print_def Let_def
        totals_p_def)
  then obtain pst' where pr: "runParallelImport ?P ?fl ?sched ?one '''' emptySys = Some (None, pst')"
    and pt: "totals_p pst' = (1, 0, 0)"
    by blast
  from counters_account [where X = ?P and export = ?one and pp = "''''" and s = emptySys
      and fl = ?fl and sched = ?sched] w pr
  have pb: "imported_p pst' + skipped_p pst' + failed_p pst' = 1" by simp
  from ir it ib ar' at ab pr pt pb show ?thesis by blast
qed

text \<open>
  Claim C7: \<open>confirmAll\<close> and \<open>skipAll\<close> are both false when the loop starts. In the
  state \<open>st\<close> reached after any number of secrets \<open>xs\<close> they are not both true; from
  there on, over any further secrets \<open>ys\<close>, one that is true stays true and the two are
  never both true. If \<open>skipAll\<close> is true in \<open>st\<close>, the rest of the loop only adds the
  number of remaining secrets to \<open>skipped\<close>: the state of the world, the history and
  the number of prompts are unchanged (no prompt, no existence check, no write). If
  \<open>confirmAll\<close> is true in \<open>st\<close>, the loop runs to its end and the calls it adds to the
  history are one \<open>WriteSecret\<close> per remaining secret, in order, at the destination
  path and with the data of the secret: no prompt and no existence check.
\<close>

theorem sticky_decisions:
  assumes reach: "interactiveLoop X pp tot 0 xs (interactiveInit s) = (Continue, st)"
  shows "\<not> confirmAll (interactiveInit s) \<and> \<not> skipAll (interactiveInit s) \<and>
         \<not> (confirmAll st \<and> skipAll st) \<and>
         (\<forall>c st2. interactiveLoop X pp tot (int (length xs)) ys st = (c, st2) \<longrightarrow>
            (confirmAll st \<longrightarrow> confirmAll st2) \<and> (skipAll st \<longrightarrow> skipAll st2) \<and>
            \<not> (confirmAll st2 \<and> skipAll st2)) \<and>
         (skipAll st \<longrightarrow>
            interactiveLoop X pp tot (int (length xs)) ys st =
              (Continue, st\<lparr>skipped := skipped st + int (length ys)\<rparr>)) \<and>
         (confirmAll st \<longrightarrow>
            (\<exists>st2. interactiveLoop X pp tot (int (length xs)) ys st = (Continue, st2) \<and>
               calls (trace (isys st2)) =
                 calls (trace (isys st)) @ map (\<lambda>y. CallWriteSecret (pp @ Path y) (Data y)) ys \<and>
               asked (isys st2) = asked (isys st)))"
proof -
  have init: "\<not> confirmAll (interactiveInit s) \<and> \<not> skipAll (interactiveInit s)"
    by (simp add: interactiveInit_def)
  from interactiveLoop_flags [OF reach] init
  have excl: "\<not> (confirmAll st \<and> skipAll st)" by blast
  have sticky: "\<forall>c st2. interactiveLoop X pp tot (int (length xs)) ys st = (c, st2) \<longrightarrow>
            (confirmAll st \<longrightarrow> confirmAll st2) \<and> (skipAll st \<longrightarrow> skipAll st2) \<and>
            \<not> (confirmAll st2 \<and> skipAll st2)"
    using interactiveLoop_flags excl by blast
  have skip: "skipAll st \<longrightarrow>
            interactiveLoop X pp tot (int (length xs)) ys st =
              (Continue, st\<lparr>skipped := skipped st + int (length ys)\<rparr>)"
    using interactiveLoop_skipAll by blast
  have conf: "confirmAll st \<longrightarrow>
            (\<exists>st2. interactiveLoop X pp tot (int (length xs)) ys st = (Continue, st2) \<and>
               calls (trace (isys st2)) =
                 calls (trace (isys st)) @ map (\<lambda>y. CallWriteSecret (pp @ Path y) (Data y)) ys \<and>
               asked (isys st2) = asked (isys st))"
  proof
    assume c: "confirmAll st"
    with excl have n: "\<not> skipAll st" by blast
    from interactiveLoop_confirmAll [OF c n, of X pp tot "int (length xs)" ys]
    show "\<exists>st2. interactiveLoop X pp tot (int (length xs)) ys st = (Continue, st2) \<and>
               calls (trace (isys st2)) =
                 calls (trace (isys st)) @ map (\<lambda>y. CallWriteSecret (pp @ Path y) (Data y)) ys \<and>
               asked (isys st2) = asked (isys st)"
      by blast
  qed
  from init excl sticky skip conf show ?thesis by blast
qed

text \<open>
  Two runs over the secrets \<open>a\<close>, \<open>b\<close>, \<open>c\<close> on the stand-in store: "No to all
  remaining" and "Yes to all remaining" at the first prompt.
\<close>

theorem sticky_decisions_witness:
  "interactiveLoop (stubExt \<lparr>Secrets = []\<rparr> [Inr ''No to all remaining''] None None) '''' 3 1
      [secretAt ''b'' 2, secretAt ''c'' 3]
      \<lparr>imported = 0, skipped = 1, failed = 0, confirmAll = False, skipAll = True,
        isys = \<lparr>world = [],
                 trace = [Print StartingInteractive, CallSecretExists ''a'',
                          Prompt 1 3 ''a'' ''a'' False],
                 asked = 1\<rparr>\<rparr> =
     (Continue,
      \<lparr>imported = 0, skipped = 3, failed = 0, confirmAll = False, skipAll = True,
        isys = \<lparr>world = [],
                 trace = [Print StartingInteractive, CallSecretExists ''a'',
                          Prompt 1 3 ''a'' ''a'' False],
                 asked = 1\<rparr>\<rparr>) \<and>
   (\<exists>st2. interactiveLoop (stubExt \<lparr>Secrets = []\<rparr> [Inr ''Yes to all remaining''] None None) '''' 3 1
      [secretAt ''b'' 2, secretAt ''c'' 3]
      \<lparr>imported = 1, skipped = 0, failed = 0, confirmAll = True, skipAll = False,
        isys = \<lparr>world = [(''a'', 1)],
                 trace = [Print StartingInteractive, CallSecretExists ''a'',
                          Prompt 1 3 ''a'' ''a'' False, CallWriteSecret ''a'' 1,
                          Print PrintedImported],
                 asked = 1\<rparr>\<rparr> = (Continue, st2) \<and>
      calls (trace (isys st2)) =
        [CallSecretExists ''a'', Prompt 1 3 ''a'' ''a'' False, CallWriteSecret ''a'' 1,
         CallWriteSecret ''b'' 2, CallWriteSecret ''c'' 3] \<and>
      asked (isys st2) = 1 \<and> confirmAll st2 \<and> \<not> skipAll st2)"
proof -
  let ?N = "stubExt \<lparr>Secrets = []\<rparr> [Inr ''No to all remaining''] None None"
  let ?Y = "stubExt \<lparr>Secrets = []\<rparr> [Inr ''Yes to all remaining''] None None"
  let ?stN = "\<lparr>imported = 0, skipped = 1, failed = 0, confirmAll = False, skipAll = True,
        isys = \<lparr>world = [],
                 trace = [Print StartingInteractive, CallSecretExists ''a'',
                          Prompt 1 3 ''a'' ''a'' False],
                 asked = 1\<rparr>\<rparr>"
  let ?stY = "\<lparr>imported = 1, skipped = 0, failed = 0, confirmAll = True, skipAll = False,
        isys = \<lparr>world = [(''a'', 1)],
                 trace = [Print StartingInteractive, CallSecretExists ''a'',
                          Prompt 1 3 ''a'' ''a'' False, CallWriteSecret ''a'' 1,
                          Print PrintedImported],
                 asked = 1\<rparr>\<rparr>"
  have reachN: "interactiveLoop ?N '''' 3 0 [secretAt ''a'' 1] (interactiveInit emptySys) =
      (Continue, ?stN)"
    by (simp add: interactiveInit_def interactiveBody_def promptBlock_def
      writeBlock_def promptImport_def SecretExists_def WriteSecret_def stubExt_def secretAt_def
      emptySys_def emit_def print_def Let_def)
  have reachY: "interactiveLoop ?Y '''' 3 0 [secretAt ''a'' 1] (interactiveInit emptySys) =
      (Continue, ?stY)"
    by (simp add: interactiveInit_def interactiveBody_def promptBlock_def
      writeBlock_def promptImport_def SecretExists_def WriteSecret_def stubExt_def secretAt_def
      emptySys_def emit_def print_def Let_def)
  from sticky_decisions [OF reachN, of "[secretAt ''b'' 2, secretAt ''c'' 3]"]
  have 1: "interactiveLoop ?N '''' 3 1 [secretAt ''b'' 2, secretAt ''c'' 3] ?stN =
     (Continue, ?stN\<lparr>skipped := 3\<rparr>)"
    by simp
  from sticky_decisions [OF reachY, of "[secretAt ''b'' 2, secretAt ''c'' 3]"]
  have 2: "\<exists>st2. interactiveLoop ?Y '''' 3 1 [secretAt ''b'' 2, secretAt ''c'' 3] ?stY = (Continue, st2) \<and>
      calls (trace (isys st2)) =
        [CallSecretExists ''a'', Prompt 1 3 ''a'' ''a'' False, CallWriteSecret ''a'' 1,
         CallWriteSecret ''b'' 2, CallWriteSecret ''c'' 3] \<and>
      asked (isys st2) = 1 \<and> confirmAll st2 \<and> \<not> skipAll st2"
    by (auto simp: calls_def secretAt_def)
  from 1 2 show ?thesis by simp
qed

text \<open>
  Claim C8, as stated, at a concrete input: two secrets and the answer "Abort import"
  at the first prompt. The run returns nil and writes nothing, but its history holds
  an existence check for the first secret: the check is made before the prompt is
  shown.
\<close>

theorem abort_exists_check_counterexample:
  "fst (runInteractiveImport
          (stubExt \<lparr>Secrets = []\<rparr> [Inr ''Abort import''] None None)
          \<lparr>Secrets = [secretAt ''a'' 1, secretAt ''b'' 2]\<rparr> '''' emptySys) = None \<and>
   filter isExists (trace (isys (snd (runInteractiveImport
          (stubExt \<lparr>Secrets = []\<rparr> [Inr ''Abort import''] None None)
          \<lparr>Secrets = [secretAt ''a'' 1, secretAt ''b'' 2]\<rparr> '''' emptySys)))) =
     [CallSecretExists ''a'']"
  by (simp add: runInteractiveImport_def interactiveInit_def interactiveBody_def promptBlock_def
      writeBlock_def promptImport_def SecretExists_def WriteSecret_def stubExt_def secretAt_def
      emptySys_def emit_def print_def Let_def)

text \<open>
  Claim C8, amended: when the first \<open>k - 1\<close> secrets \<open>xs\<close> have been processed, the
  prompt for the \<open>k\<close>-th secret is shown (neither sticky decision is set) and the
  answer is Abort, \<open>runInteractiveImport\<close> returns nil at once. The counters are those
  after the \<open>k - 1\<close> secrets and add up to \<open>k - 1\<close>; the report prints the imported
  and skipped counters. All that has happened since the \<open>k - 1\<close> secrets is the
  existence check of the \<open>k\<close>-th secret (made before its prompt, with a warning if it
  failed), the prompt and the report: no write for the \<open>k\<close>-th or a later secret, and no
  existence check for a later one.
\<close>

theorem abort_stops:
  assumes reach: "interactiveLoop X pp (int (length (xs @ sec # ys))) 0 xs (interactiveInit s) =
                    (Continue, st)"
    and flags: "\<not> confirmAll st" "\<not> skipAll st"
    and ex: "SecretExists X (pp @ Path sec) (isys st) = ((ex, err), s1)"
    and ask: "AskOne X (asked (isys st)) = Inr sel"
    and sel: "sel \<notin> {''Yes'', ''No'', ''Yes to all remaining'', ''No to all remaining''}"
  shows "\<exists>st'. runInteractiveImport X \<lparr>Secrets = xs @ sec # ys\<rparr> pp s = (None, st') \<and>
           totals st' = totals st \<and>
           imported st + skipped st + failed st = int (length xs) \<and>
           world (isys st') = world s1 \<and>
           trace (isys st') =
             trace (isys st) @ CallSecretExists (pp @ Path sec) #
               (case err of None \<Rightarrow> [] | Some e \<Rightarrow> [Print (WarnExistsFailed e)]) @
               [Prompt (int (length xs) + 1) (int (length (xs @ sec # ys))) (Path sec)
                  (pp @ Path sec) ex,
                Print (AbortedByUser (imported st) (skipped st))]"
proof -
  let ?n = "int (length (xs @ sec # ys))"
  let ?st' = "st\<lparr>isys := s1\<lparr>trace := trace (isys st) @ CallSecretExists (pp @ Path sec) #
                       (case err of None \<Rightarrow> [] | Some e' \<Rightarrow> [Print (WarnExistsFailed e')]) @
                       [Prompt (int (length xs) + 1) ?n (Path sec) (pp @ Path sec) ex,
                        Print (AbortedByUser (imported st) (skipped st))],
                     asked := Suc (asked (isys st))\<rparr>\<rparr>"
  from sel have s4: "sel \<noteq> ''Yes''" "sel \<noteq> ''No''" "sel \<noteq> ''Yes to all remaining''"
    "sel \<noteq> ''No to all remaining''"
    by auto
  have body: "interactiveBody X pp ?n (int (length xs)) sec st = (Return None, ?st')"
    using interactiveBody_abort [OF flags(2) flags(1) ex ask s4] .
  have "interactiveLoop X pp ?n 0 (xs @ sec # ys) (interactiveInit s) = (Return None, ?st')"
    using reach body by (simp add: interactiveLoop_append)
  then have run: "runInteractiveImport X \<lparr>Secrets = xs @ sec # ys\<rparr> pp s = (None, ?st')"
    by (simp add: runInteractiveImport_def)
  from interactiveLoop_counts [OF reach]
  have sum: "imported st + skipped st + failed st = int (length xs)"
    by (auto simp: interactiveInit_def)
  show ?thesis
    by (rule exI [of _ ?st']) (simp add: run sum totals_def)
qed

theorem abort_stops_witness:
  "\<exists>st'. runInteractiveImport
       (stubExt \<lparr>Secrets = []\<rparr> [Inr ''Yes'', Inr ''Abort import''] None None)
       \<lparr>Secrets = [secretAt ''a'' 1, secretAt ''b'' 2, secretAt ''c'' 3]\<rparr> '''' emptySys =
       (None, st') \<and>
     totals st' = (1, 0, 0) \<and>
     world (isys st') = [(''a'', 1)] \<and>
     trace (isys st') =
       [Print StartingInteractive, CallSecretExists ''a'', Prompt 1 3 ''a'' ''a'' False,
        CallWriteSecret ''a'' 1, Print PrintedImported,
        CallSecretExists ''b'', Prompt 2 3 ''b'' ''b'' False, Print (AbortedByUser 1 0)]"
proof -
  let ?X = "stubExt \<lparr>Secrets = []\<rparr> [Inr ''Yes'', Inr ''Abort import''] None None"
  let ?st = "\<lparr>imported = 1, skipped = 0, failed = 0, confirmAll = False, skipAll = False,
      isys = \<lparr>world = [(''a'', 1)],
               trace = [Print StartingInteractive, CallSecretExists ''a'', Prompt 1 3 ''a'' ''a'' False,
                        CallWriteSecret ''a'' 1, Print PrintedImported],
               asked = 1\<rparr>\<rparr>"
  let ?s1 = "\<lparr>world = [(''a'', 1)],
               trace = [Print StartingInteractive, CallSecretExists ''a'', Prompt 1 3 ''a'' ''a'' False,
                        CallWriteSecret ''a'' 1, Print PrintedImported, CallSecretExists ''b''],
               asked = 1\<rparr>"
  have reach: "interactiveLoop ?X '''' (int (length ([secretAt ''a'' 1] @ secretAt ''b'' 2 # [secretAt ''c'' 3])))
      0 [secretAt ''a'' 1] (interactiveInit emptySys) = (Continue, ?st)"
    by (simp add: interactiveInit_def interactiveBody_def promptBlock_def
      writeBlock_def promptImport_def SecretExists_def WriteSecret_def stubExt_def secretAt_def
      emptySys_def emit_def print_def Let_def)
  have flags: "\<not> confirmAll ?st" "\<not> skipAll ?st" by simp_all
  have ex: "SecretExists ?X ('''' @ Path (secretAt ''b'' 2)) (isys ?st) = ((False, None), ?s1)"
    by (simp add: SecretExists_def stubExt_def secretAt_def emit_def)
  have ask: "AskOne ?X (asked (isys ?st)) = Inr ''Abort import''" by (simp add: stubExt_def)
  have sel: "''Abort import'' \<notin> {''Yes'', ''No'', ''Yes to all remaining'', ''No to all remaining''}"
    by simp
  from abort_stops [OF reach flags ex ask sel]
  show ?thesis by (simp add: totals_def secretAt_def)
qed

text \<open>
  Claim C9: with both \<open>--overwrite-all\<close> and \<open>--interactive\<close>, \<open>runImport\<close> returns the
  configuration error in the state it was called in: nothing has been read, printed or
  called (no \<open>ValidateFile\<close>, no \<open>NewClient\<close>, no call on the client). With
  \<open>--overwrite-all\<close> alone, everything from the reading of the export file on, the
  import engine included, runs with \<open>importSkipExisting\<close> set to false, and the
  variable is still false when \<open>runImport\<close> returns.
\<close>

theorem runImport_flag_validation:
  "(importOverwriteAll fl \<and> importInteractive fl \<longrightarrow>
      runImport X sched fl s =
        Some (Some (ErrorString ''--overwrite-all and --interactive cannot be used together''), fl, s)) \<and>
   (importOverwriteAll fl \<and> \<not> importInteractive fl \<longrightarrow>
      runImport X sched fl s = runImportRest X sched (fl\<lparr>importSkipExisting := False\<rparr>) s \<and>
      (\<forall>r fl' s'. runImport X sched fl s = Some (r, fl', s') \<longrightarrow> \<not> importSkipExisting fl'))"
proof -
  have rest: "runImportRest X sched f s = Some (r, f', s') \<Longrightarrow> f' = f" for f r f' s'
    by (auto simp: runImportRest_def Let_def runDryRun_def
        split: prod.splits sum.splits option.splits if_splits)
  show ?thesis
    by (auto simp: runImport_def dest: rest)
qed

theorem runImport_flag_validation_witness:
  "runImport (stubExt \<lparr>Secrets = [secretAt ''a'' 1]\<rparr> [] None None) []
      (defaultFlags\<lparr>importOverwriteAll := True, importInteractive := True\<rparr>) emptySys =
     Some (Some (ErrorString ''--overwrite-all and --interactive cannot be used together''),
           defaultFlags\<lparr>importOverwriteAll := True, importInteractive := True\<rparr>, emptySys) \<and>
   (\<exists>s'. runImport (stubExt \<lparr>Secrets = [secretAt ''a'' 1]\<rparr> [] None None)
      [Sender, Sender, Worker 0, Worker 0, Worker 0, Worker 0, Worker 0, Closer, Main, Main]
      (defaultFlags\<lparr>importOverwriteAll := True, importParallelism := 1\<rparr>)
      (emptySys\<lparr>world := [(''a'', 7)]\<rparr>) =
     Some (None, defaultFlags\<lparr>importOverwriteAll := True, importParallelism := 1,
                              importSkipExisting := False\<rparr>, s') \<and>
     world s' = [(''a'', 1), (''a'', 7)] \<and> filter isExists (trace s') = [])"
proof -
  let ?X = "stubExt \<lparr>Secrets = [secretAt ''a'' 1]\<rparr> [] None None"
  let ?both = "defaultFlags\<lparr>importOverwriteAll := True, importInteractive := True\<rparr>"
  let ?over = "defaultFlags\<lparr>importOverwriteAll := True, importParallelism := 1\<rparr>"
  let ?sched = "[Sender, Sender, Worker 0, Worker 0, Worker 0, Worker 0, Worker 0, Closer, Main, Main]"
  have b: "importOverwriteAll ?both \<and> importInteractive ?both" by (simp add: defaultFlags_def)
  have o: "importOverwriteAll ?over \<and> \<not> importInteractive ?over" by (simp add: defaultFlags_def)
  have run: "\<exists>s'. runImportRest ?X ?sched (?over\<lparr>importSkipExisting := False\<rparr>)
        (emptySys\<lparr>world := [(''a'', 7)]\<rparr>) =
      Some (None, ?over\<lparr>importSkipExisting := False\<rparr>, s') \<and>
      world s' = [(''a'', 1), (''a'', 7)] \<and> filter isExists (trace s') = []"
    by (simp add: runImportRest_def runParallelImport_def parallelInit_def pstep_def senderStep_def
        workerStep_def closerStep_def mainStep_def countResult_def importSecretCheck_def
        importSecretWrite_def NewClient_def Health_def WriteSecret_def normalizePathPrefix_def
        stubExt_def secretAt_def emptySys_def defaultFlags_def emit_def print_def Let_def)
  from runImport_flag_validation [of ?both ?X "[]" emptySys] b
    runImport_flag_validation [of ?over ?X ?sched "emptySys\<lparr>world := [(''a'', 7)]\<rparr>"] o run
  show ?thesis by simp
qed

text \<open>
  Claim C10: when the first \<open>k - 1\<close> secrets \<open>xs\<close> have been processed, the prompt for
  the \<open>k\<close>-th secret is shown and the prompt itself returns an error \<open>e\<close>,
  \<open>runInteractiveImport\<close> returns at once the error "prompt failed" wrapping \<open>e\<close>. The
  counters are those after the \<open>k - 1\<close> secrets: the \<open>k\<close>-th and the later secrets are
  counted nowhere. The history of the \<open>k - 1\<close> secrets stands, followed only by the
  existence check and the prompt of the \<open>k\<close>-th secret: nothing is written for it or
  for a later secret, nothing is undone, and the run has printed no summary. A prompt that
  returns a selection that is none of the first four options (Abort) makes the function
  return nil instead.
\<close>

theorem prompt_failure_stops:
  assumes reach: "interactiveLoop X pp (int (length (xs @ sec # ys))) 0 xs (interactiveInit s) =
                    (Continue, st)"
    and flags: "\<not> confirmAll st" "\<not> skipAll st"
    and ex: "SecretExists X (pp @ Path sec) (isys st) = ((ex, err), s1)"
  shows "(\<forall>e. AskOne X (asked (isys st)) = Inl e \<longrightarrow>
           (\<exists>st'. runInteractiveImport X \<lparr>Secrets = xs @ sec # ys\<rparr> pp s =
                    (Some (Errorf_w ''prompt failed: '' e), st') \<and>
              totals st' = totals st \<and>
              imported st + skipped st + failed st = int (length xs) \<and>
              world (isys st') = world s1 \<and>
              trace (isys st') =
                trace (isys st) @ CallSecretExists (pp @ Path sec) #
                  (case err of None \<Rightarrow> [] | Some e' \<Rightarrow> [Print (WarnExistsFailed e')]) @
                  [Prompt (int (length xs) + 1) (int (length (xs @ sec # ys))) (Path sec)
                     (pp @ Path sec) ex] \<and>
              filter isSummary (trace (isys st')) = filter isSummary (trace s))) \<and>
         (\<forall>sel. AskOne X (asked (isys st)) = Inr sel \<and>
             sel \<notin> {''Yes'', ''No'', ''Yes to all remaining'', ''No to all remaining''} \<longrightarrow>
           fst (runInteractiveImport X \<lparr>Secrets = xs @ sec # ys\<rparr> pp s) = None)"
proof (intro conjI allI impI)
  fix e
  assume ask: "AskOne X (asked (isys st)) = Inl e"
  let ?n = "int (length (xs @ sec # ys))"
  let ?st' = "st\<lparr>isys := s1\<lparr>trace := trace (isys st) @ CallSecretExists (pp @ Path sec) #
                       (case err of None \<Rightarrow> [] | Some e' \<Rightarrow> [Print (WarnExistsFailed e')]) @
                       [Prompt (int (length xs) + 1) ?n (Path sec) (pp @ Path sec) ex],
                     asked := Suc (asked (isys st))\<rparr>\<rparr>"
  have body: "interactiveBody X pp ?n (int (length xs)) sec st =
      (Return (Some (Errorf_w ''prompt failed: '' e)), ?st')"
    using interactiveBody_prompt_failed [OF flags(2) flags(1) ex ask] .
  have "interactiveLoop X pp ?n 0 (xs @ sec # ys) (interactiveInit s) =
      (Return (Some (Errorf_w ''prompt failed: '' e)), ?st')"
    using reach body by (simp add: interactiveLoop_append)
  then have run: "runInteractiveImport X \<lparr>Secrets = xs @ sec # ys\<rparr> pp s =
      (Some (Errorf_w ''prompt failed: '' e), ?st')"
    by (simp add: runInteractiveImport_def)
  from interactiveLoop_counts [OF reach]
  have sum: "imported st + skipped st + failed st = int (length xs)"
    by (auto simp: interactiveInit_def)
  have nosum: "filter isSummary (trace (isys st)) = filter isSummary (trace s)"
    using interactiveLoop_no_summary [OF reach] by (simp add: interactiveInit_def print_def emit_def)
  have "filter isSummary (trace (isys ?st')) = filter isSummary (trace s)"
    using nosum by (cases err) simp_all
  then show "\<exists>st'. runInteractiveImport X \<lparr>Secrets = xs @ sec # ys\<rparr> pp s =
                    (Some (Errorf_w ''prompt failed: '' e), st') \<and>
              totals st' = totals st \<and>
              imported st + skipped st + failed st = int (length xs) \<and>
              world (isys st') = world s1 \<and>
              trace (isys st') =
                trace (isys st) @ CallSecretExists (pp @ Path sec) #
                  (case err of None \<Rightarrow> [] | Some e' \<Rightarrow> [Print (WarnExistsFailed e')]) @
                  [Prompt (int (length xs) + 1) (int (length (xs @ sec # ys))) (Path sec)
                     (pp @ Path sec) ex] \<and>
              filter isSummary (trace (isys st')) = filter isSummary (trace s)"
    by (intro exI [of _ ?st']) (simp add: run sum totals_def)
next
  fix sel
  assume a: "AskOne X (asked (isys st)) = Inr sel \<and>
             sel \<notin> {''Yes'', ''No'', ''Yes to all remaining'', ''No to all remaining''}"
  then have s4: "sel \<noteq> ''Yes''" "sel \<noteq> ''No''" "sel \<noteq> ''Yes to all remaining''"
    "sel \<noteq> ''No to all remaining''"
    by auto
  from a have ask: "AskOne X (asked (isys st)) = Inr sel" by simp
  let ?n = "int (length (xs @ sec # ys))"
  from interactiveBody_abort [OF flags(2) flags(1) ex ask s4, of ?n "int (length xs)"]
  obtain st' where "interactiveBody X pp ?n (int (length xs)) sec st = (Return None, st')"
    by blast
  with reach have "interactiveLoop X pp ?n 0 (xs @ sec # ys) (interactiveInit s) = (Return None, st')"
    by (simp add: interactiveLoop_append)
  then show "fst (runInteractiveImport X \<lparr>Secrets = xs @ sec # ys\<rparr> pp s) = None"
    by (simp add: runInteractiveImport_def)
qed

theorem prompt_failure_stops_witness:
  "(\<exists>st'. runInteractiveImport
       (stubExt \<lparr>Secrets = []\<rparr> [Inr ''Yes'', Inl (ErrorString ''interrupt'')] None None)
       \<lparr>Secrets = [secretAt ''a'' 1, secretAt ''b'' 2, secretAt ''c'' 3]\<rparr> '''' emptySys =
       (Some (Errorf_w ''prompt failed: '' (ErrorString ''interrupt'')), st') \<and>
     totals st' = (1, 0, 0) \<and>
     world (isys st') = [(''a'', 1)] \<and>
     trace (isys st') =
       [Print StartingInteractive, CallSecretExists ''a'', Prompt 1 3 ''a'' ''a'' False,
        CallWriteSecret ''a'' 1, Print PrintedImported,
        CallSecretExists ''b'', Prompt 2 3 ''b'' ''b'' False]) \<and>
   fst (runInteractiveImport
       (stubExt \<lparr>Secrets = []\<rparr> [Inr ''Yes'', Inr ''Abort import''] None None)
       \<lparr>Secrets = [secretAt ''a'' 1, secretAt ''b'' 2, secretAt ''c'' 3]\<rparr> '''' emptySys) = None"
proof -
  let ?X = "stubExt \<lparr>Secrets = []\<rparr> [Inr ''Yes'', Inl (ErrorString ''interrupt'')] None None"
  let ?Y = "stubExt \<lparr>Secrets = []\<rparr> [Inr ''Yes'', Inr ''Abort import''] None None"
  let ?st = "\<lparr>imported = 1, skipped = 0, failed = 0, confirmAll = False, skipAll = False,
      isys = \<lparr>world = [(''a'', 1)],
               trace = [Print StartingInteractive, CallSecretExists ''a'', Prompt 1 3 ''a'' ''a'' False,
                        CallWriteSecret ''a'' 1, Print PrintedImported],
               asked = 1\<rparr>\<rparr>"
  let ?s1 = "\<lparr>world = [(''a'', 1)],
               trace = [Print StartingInteractive, CallSecretExists ''a'', Prompt 1 3 ''a'' ''a'' False,
                        CallWriteSecret ''a'' 1, Print PrintedImported, CallSecretExists ''b''],
               asked = 1\<rparr>"
  have reachX: "interactiveLoop ?X '''' (int (length ([secretAt ''a'' 1] @ secretAt ''b'' 2 # [secretAt ''c'' 3])))
      0 [secretAt ''a'' 1] (interactiveInit emptySys) = (Continue, ?st)"
    by (simp add: interactiveInit_def interactiveBody_def promptBlock_def
      writeBlock_def promptImport_def SecretExists_def WriteSecret_def stubExt_def secretAt_def
      emptySys_def emit_def print_def Let_def)
  have reachY: "interactiveLoop ?Y '''' (int (length ([secretAt ''a'' 1] @ secretAt ''b'' 2 # [secretAt ''c'' 3])))
      0 [secretAt ''a'' 1] (interactiveInit emptySys) = (Continue, ?st)"
    by (simp add: interactiveInit_def interactiveBody_def promptBlock_def
      writeBlock_def promptImport_def SecretExists_def WriteSecret_def stubExt_def secretAt_def
      emptySys_def emit_def print_def Let_def)
  have flags: "\<not> confirmAll ?st" "\<not> skipAll ?st" by simp_all
  have exX: "SecretExists ?X ('''' @ Path (secretAt ''b'' 2)) (isys ?st) = ((False, None), ?s1)"
    by (simp add: SecretExists_def stubExt_def secretAt_def emit_def)
  have exY: "SecretExists ?Y ('''' @ Path (secretAt ''b'' 2)) (isys ?st) = ((False, None), ?s1)"
    by (simp add: SecretExists_def stubExt_def secretAt_def emit_def)
  have askX: "AskOne ?X (asked (isys ?st)) = Inl (ErrorString ''interrupt'')" by (simp add: stubExt_def)
  have askY: "AskOne ?Y (asked (isys ?st)) = Inr ''Abort import'' \<and>
      ''Abort import'' \<notin> {''Yes'', ''No'', ''Yes to all remaining'', ''No to all remaining''}"
    by (simp add: stubExt_def)
  from prompt_failure_stops [OF reachX flags exX] askX
  have 1: "\<exists>st'. runInteractiveImport ?X
       \<lparr>Secrets = [secretAt ''a'' 1, secretAt ''b'' 2, secretAt ''c'' 3]\<rparr> '''' emptySys =
       (Some (Errorf_w ''prompt failed: '' (ErrorString ''interrupt'')), st') \<and>
     totals st' = (1, 0, 0) \<and>
     world (isys st') = [(''a'', 1)] \<and>
     trace (isys st') =
       [Print StartingInteractive, CallSecretExists ''a'', Prompt 1 3 ''a'' ''a'' False,
        CallWriteSecret ''a'' 1, Print PrintedImported,
        CallSecretExists ''b'', Prompt 2 3 ''b'' ''b'' False]"
    by (auto simp: totals_def secretAt_def)
  from prompt_failure_stops [OF reachY flags exY] askY
  have 2: "fst (runInteractiveImport ?Y
       \<lparr>Secrets = [secretAt ''a'' 1, secretAt ''b'' 2, secretAt ''c'' 3]\<rparr> '''' emptySys) = None"
    by simp
  from 1 2 show ?thesis by blast
qed

end
